theory Spec2Isabelle
  imports Complex_Main "HOL-Library.Monad_Syntax"
begin

section \<open>Values of the script\<close>

text \<open>
  The script keeps one module-level \<open>state\<close> object and reads and writes the page
  through the element table \<open>els\<close>. All numbers it computes with are integers far below
  \<open>2^53\<close>, so they are modelled as \<open>int\<close>; the scroll position delivered by the browser
  may be fractional and is a \<open>real\<close>.

  A slot of a JavaScript array may hold no number: reading past the end or reading a hole
  gives \<open>undefined\<close>, and arithmetic on \<open>undefined\<close> gives \<open>NaN\<close>. The script only ever adds
  such a value, compares it, or writes \<open>v || 0\<close>; in all three \<open>undefined\<close> and \<open>NaN\<close> behave
  alike, so both are the value \<open>None\<close> of \<open>jsnum\<close>.
\<close>

type_synonym jsnum = "int option"

definition jadd :: "jsnum \<Rightarrow> jsnum \<Rightarrow> jsnum" where
  "jadd a b = (case a of None \<Rightarrow> None | Some x \<Rightarrow> (case b of None \<Rightarrow> None | Some y \<Rightarrow> Some (x + y)))"

text \<open>\<open>v || 0\<close>: \<open>undefined\<close>, \<open>NaN\<close> and \<open>0\<close> all give \<open>0\<close>.\<close>

definition or0 :: "jsnum \<Rightarrow> int" where
  "or0 v = (case v of None \<Rightarrow> 0 | Some x \<Rightarrow> x)"

text \<open>\<open>xs[i]\<close> for any integer \<open>i\<close>: \<open>undefined\<close> outside the array.\<close>

definition js_nth :: "'a list \<Rightarrow> int \<Rightarrow> 'a option" where
  "js_nth xs i = (if 0 \<le> i \<and> i < int (length xs) then Some (xs ! nat i) else None)"

definition js_get :: "jsnum list \<Rightarrow> int \<Rightarrow> jsnum" where
  "js_get xs i = (case js_nth xs i of None \<Rightarrow> None | Some v \<Rightarrow> v)"

text \<open>\<open>xs[i] = v\<close>: inside the array the slot is overwritten; at or past the end the array
  grows to length \<open>i + 1\<close> and the slots in between are holes.\<close>

definition js_set :: "jsnum list \<Rightarrow> nat \<Rightarrow> jsnum \<Rightarrow> jsnum list" where
  "js_set xs i v = (if i < length xs then xs[i := v] else xs @ replicate (i - length xs) None @ [v])"

text \<open>\<open>a % b\<close>: the remainder takes the sign of the dividend. The script takes it by
  the number of images only, and only when there is at least one.\<close>

definition js_rem :: "int \<Rightarrow> int \<Rightarrow> int" where
  "js_rem a b = sgn a * (\<bar>a\<bar> mod \<bar>b\<bar>)"

text \<open>\<open>x >> 1\<close>: the operand is first reduced to a signed 32-bit integer.\<close>

definition toInt32 :: "int \<Rightarrow> int" where
  "toInt32 x = (let y = x mod 4294967296 in if 2147483648 \<le> y then y - 4294967296 else y)"

definition sar1 :: "int \<Rightarrow> int" where
  "sar1 x = toInt32 x div 2"

section \<open>State\<close>

text \<open>A record group of the list API. \<open>image_urls\<close> is \<open>None\<close> when the field is not an array.\<close>

record group =
  report_date :: string
  image_urls :: "string list option"

record viewer =
  isOpen :: bool
  images :: "string list"
  index :: int
  touchStartX :: int
  touchStartY :: int

text \<open>
  The \<open>state\<close> object. \<open>abortController\<close> holds the identity of the controller of the
  request in flight, or \<open>None\<close> for \<open>null\<close>. The fields used only for the timing log
  (\<open>firstRenderReported\<close>, \<open>startedAt\<close>, \<open>performanceObserver\<close>) are left out: nothing else
  reads them. The field \<open>total\<close> is named \<open>total_count\<close> here.
\<close>

record state =
  categoryCode :: string
  title :: string
  patientId :: string
  reportMonth :: string
  pageNum :: int
  pageSize :: int
  total_count :: int
  groups :: "group list"
  heights :: "jsnum list"
  offsets :: "jsnum list"
  totalHeight :: jsnum
  isLoading :: bool
  abortController :: "nat option"
  viewer :: viewer

definition initial_viewer :: viewer where
  "initial_viewer = \<lparr>isOpen = False, images = [], index = 0, touchStartX = 0, touchStartY = 0\<rparr>"

definition initial_state :: state where
  "initial_state = \<lparr>categoryCode = [], title = [], patientId = [], reportMonth = [],
     pageNum = 1, pageSize = 10, total_count = 0, groups = [], heights = [], offsets = [],
     totalHeight = Some 0, isLoading = False, abortController = None, viewer = initial_viewer\<rparr>"

section \<open>Layout engine\<close>

text \<open>
  \<open>computeItemHeight\<close>. The argument \<open>cw\<close> is \<open>els.scroll.clientWidth\<close>, or \<open>None\<close> when
  \<open>els.scroll\<close> is missing (the script then takes 375). The local constants \<open>rows\<close> and
  \<open>thumb\<close> are functions of their own so that they can be stated about.
\<close>

definition imagesOf :: "group \<Rightarrow> string list" where
  "imagesOf g = (case image_urls g of Some us \<Rightarrow> us | None \<Rightarrow> [])"

definition rowsOf :: "group \<Rightarrow> int" where
  "rowsOf g = max 1 \<lceil>real (length (imagesOf g)) / 3\<rceil>"

definition gap :: int where
  "gap = 8"

definition containerWidth :: "int option \<Rightarrow> int" where
  "containerWidth cw = (case cw of Some c \<Rightarrow> c | None \<Rightarrow> 375)"

definition gridWidth :: "int option \<Rightarrow> int" where
  "gridWidth cw = max 0 (containerWidth cw - 32)"

definition thumb :: "int option \<Rightarrow> int" where
  "thumb cw = max 56 \<lfloor>real_of_int (gridWidth cw - gap * 2) / 3\<rfloor>"

definition gridHeight :: "int option \<Rightarrow> group \<Rightarrow> int" where
  "gridHeight cw g = rowsOf g * thumb cw + (rowsOf g - 1) * gap"

definition computeItemHeight :: "int option \<Rightarrow> group \<Rightarrow> int" where
  "computeItemHeight cw g = 16 + 24 + 12 + gridHeight cw g + 16"

text \<open>
  The loop of \<open>recomputeLayout\<close>, on the state it mutates. The right-hand side of the
  second assignment reads \<open>offsets[i - 1]\<close> and \<open>heights[i - 1]\<close> after \<open>heights[i]\<close> has
  been written.
\<close>

function layoutLoop :: "int option \<Rightarrow> nat \<Rightarrow> state \<Rightarrow> state" where
  "layoutLoop cw i s =
     (if i < length (groups s) then
        let s1 = s\<lparr>heights := js_set (heights s) i (Some (computeItemHeight cw (groups s ! i)))\<rparr>;
            s2 = s1\<lparr>offsets := js_set (offsets s1) i
                   (if i = 0 then Some 0
                    else jadd (js_get (offsets s1) (int i - 1)) (js_get (heights s1) (int i - 1)))\<rparr>
        in layoutLoop cw (i + 1) s2
      else s)"
  by pat_completeness auto
termination
  by (relation "measure (\<lambda>(cw, i, s). length (groups s) - i)") auto

declare layoutLoop.simps [simp del]

text \<open>The state part of \<open>recomputeLayout\<close>: the loop, then \<open>totalHeight\<close>.\<close>

definition relayout :: "int option \<Rightarrow> int \<Rightarrow> state \<Rightarrow> state" where
  "relayout cw fromIndex s =
     (let start = nat (max 0 fromIndex);
          s1 = layoutLoop cw start s;
          lastIndex = int (length (groups s1)) - 1
      in s1\<lparr>totalHeight :=
             (if 0 \<le> lastIndex
              then jadd (js_get (offsets s1) lastIndex) (js_get (heights s1) lastIndex)
              else Some 0)\<rparr>)"

section \<open>Window resolver\<close>

text \<open>
  The \<open>while\<close> loop of \<open>findIndexByScrollTop\<close> on its three variables. With \<open>>>\<close> working
  on 32 bits the loop is not known to end for every array length, so a run that never
  leaves the loop is the value \<open>None\<close>.
\<close>

partial_function (option) searchLoop ::
  "state \<Rightarrow> real \<Rightarrow> int \<Rightarrow> int \<Rightarrow> int \<Rightarrow> (int \<times> int \<times> int) option" where
  "searchLoop s y low high ans =
     (if low \<le> high then
        (let mid = sar1 (low + high);
             start = or0 (js_get (offsets s) mid);
             fin = start + or0 (js_get (heights s) mid)
         in if real_of_int fin \<le> y then searchLoop s y (mid + 1) high ans
            else if y < real_of_int start then searchLoop s y low (mid - 1) ans
            else Some (low, high, mid))
      else Some (low, high, ans))"

definition findIndexByScrollTop :: "state \<Rightarrow> real \<Rightarrow> int option" where
  "findIndexByScrollTop s y =
     (case searchLoop s y 0 (int (length (groups s)) - 1) 0 of
        None \<Rightarrow> None
      | Some (low, high, ans) \<Rightarrow>
          Some (if high < low then max 0 (min low (int (length (groups s)) - 1)) else ans))"

section \<open>The page and the requests in flight\<close>

text \<open>
  What the script shows. The Chinese texts of the toasts and of the viewer's loading
  line are constructors: \<open>MissingCategory\<close> is the toast of a missing category code,
  \<open>LoadFailed\<close> the default failure text, \<open>ServerMessage m\<close> a message taken from the
  response or from the thrown error.
\<close>

datatype message = MissingCategory | LoadFailed | ServerMessage string

datatype loading_text = NoImages | Loading | LoadError

text \<open>
  The elements of \<open>els\<close> with the properties the script reads or writes. The page template
  supplies every element (\<open>initDom\<close> dereferences \<open>els.scroll\<close> unguarded), so the
  \<open>if (!els.x) return\<close> guards are always passed. \<open>rendered\<close> is the content of
  \<open>els.virtualInner\<close>: \<open>None\<close> when emptied, otherwise the first and last group index
  materialised and the vertical translation.
\<close>

record dom =
  clientWidth :: int
  clientHeight :: int
  scrollTop :: real
  virtualHeight :: jsnum
  rendered :: "(int \<times> int \<times> int) option"
  spinnerHidden :: bool
  noMoreHidden :: bool
  emptyHidden :: bool
  monthDisplay :: string
  toasts :: "message list"
  viewerHidden :: bool
  bodyOverflowHidden :: bool
  viewerImageSrc :: "string option"
  viewerImageHidden :: bool
  viewerLoadingHidden :: bool
  viewerLoadingText :: loading_text
  viewerIndexText :: "(int \<times> nat) option"

text \<open>The query string built by \<open>buildApiUrl\<close>; \<open>patient_id\<close> is set only when non-empty.\<close>

record query =
  patient_id :: "string option"
  category_code :: string
  report_month :: string
  page_num :: int
  page_size :: int

text \<open>
  A request in flight is the promise chain of one \<open>loadPage\<close> call together with what its
  handlers close over: the \<open>reset\<close> flag and the five \<open>preserve...\<close> constants.
  \<open>controller\<close> is the identity of the \<open>AbortController\<close> whose signal the fetch was given,
  \<open>aborted\<close> whether \<open>abort()\<close> has been called on it.
\<close>

record fetch =
  controller :: nat
  aborted :: bool
  url :: query
  reset :: bool
  preserveGroups :: "group list"
  preserveHeights :: "jsnum list"
  preserveOffsets :: "jsnum list"
  preserveTotalHeight :: jsnum
  preserveTotal :: int

text \<open>A pending \<open>Image\<close> of the viewer: the \<open>url\<close> its handlers close over, and the \<open>idx\<close>
  that was current when \<open>renderViewerImage\<close> created it.\<close>

record img_load =
  src :: "string option"
  forIndex :: int

record world =
  st :: state
  page :: dom
  fetches :: "fetch list"
  loads :: "img_load list"
  controllers :: nat

text \<open>The body of a response, after \<open>res.json()\<close>. \<open>success\<close> is \<open>False\<close> only for
  \<open>data.success === false\<close>; \<open>list\<close> is \<open>None\<close> when \<open>data.list\<close> is not an array; \<open>total\<close> is
  \<open>parseInt(data.total || 0, 10)\<close>.\<close>

record payload =
  p_success :: bool
  p_total :: int
  p_list :: "group list option"
  p_message :: "string option"

text \<open>How a fetch ends when it was not aborted: the promise rejects with an error that
  carries a message (transport failure, body that is not JSON), or a response arrives
  with \<open>res.ok\<close> and a parsed body (\<open>None\<close> for a falsy body such as \<open>null\<close>).\<close>

datatype outcome = Rejected string | Reply bool "payload option"

section \<open>Operations on the page\<close>

definition showToast :: "message \<Rightarrow> world \<Rightarrow> world" where
  "showToast m w = w\<lparr>page := (page w)\<lparr>toasts := toasts (page w) @ [m]\<rparr>\<rparr>"

definition setLoading :: "bool \<Rightarrow> world \<Rightarrow> world" where
  "setLoading loading w =
     w\<lparr>st := (st w)\<lparr>isLoading := loading\<rparr>, page := (page w)\<lparr>spinnerHidden := \<not> loading\<rparr>\<rparr>"

definition setEmptyVisible :: "bool \<Rightarrow> world \<Rightarrow> world" where
  "setEmptyVisible visible w = w\<lparr>page := (page w)\<lparr>emptyHidden := \<not> visible\<rparr>\<rparr>"

definition setNoMoreVisible :: "bool \<Rightarrow> world \<Rightarrow> world" where
  "setNoMoreVisible visible w = w\<lparr>page := (page w)\<lparr>noMoreHidden := \<not> visible\<rparr>\<rparr>"

definition isAllLoaded :: "state \<Rightarrow> bool" where
  "isAllLoaded s \<longleftrightarrow> 0 < total_count s \<and> total_count s \<le> int (length (groups s))"

text \<open>\<open>recomputeLayout\<close>: the layout is computed at the width the scroll container has
  now, and the virtual container is resized to \<open>totalHeight\<close>.\<close>

definition recomputeLayout :: "int \<Rightarrow> world \<Rightarrow> world" where
  "recomputeLayout fromIndex w =
     (let s = relayout (Some (clientWidth (page w))) fromIndex (st w)
      in w\<lparr>st := s, page := (page w)\<lparr>virtualHeight := totalHeight s\<rparr>\<rparr>)"

text \<open>\<open>renderVirtual\<close> writes \<open>els.virtualInner\<close> only. It does not return when a search
  does not.\<close>

definition renderVirtual :: "world \<Rightarrow> world option" where
  "renderVirtual w =
     (let n = int (length (groups (st w))) in
      if n = 0 then Some (w\<lparr>page := (page w)\<lparr>rendered := None\<rparr>\<rparr>)
      else do {
        startIndex \<leftarrow> findIndexByScrollTop (st w) (max 0 (scrollTop (page w) - 200));
        endIndex \<leftarrow> findIndexByScrollTop (st w)
                      (scrollTop (page w) + real_of_int (clientHeight (page w)) + 400);
        let from = max 0 (startIndex - 6);
        let to = min (n - 1) (endIndex + 6);
        let offsetY = or0 (js_get (offsets (st w)) from);
        Some (w\<lparr>page := (page w)\<lparr>rendered := Some (from, to, offsetY)\<rparr>\<rparr>)
      })"

section \<open>Viewer\<close>

definition renderViewerImage :: "world \<Rightarrow> world" where
  "renderViewerImage w =
     (let urls = images (viewer (st w)); idx = index (viewer (st w)) in
      if urls = [] then
        w\<lparr>page := (page w)\<lparr>viewerLoadingText := NoImages, viewerLoadingHidden := False,
                             viewerImageHidden := True, viewerIndexText := None\<rparr>\<rparr>
      else
        w\<lparr>page := (page w)\<lparr>viewerIndexText := Some (idx + 1, length urls),
                             viewerLoadingText := Loading, viewerLoadingHidden := False,
                             viewerImageHidden := True\<rparr>,
           loads := loads w @ [\<lparr>src = js_nth urls idx, forIndex = idx\<rparr>]\<rparr>)"

definition openViewer :: "string list \<Rightarrow> int \<Rightarrow> world \<Rightarrow> world" where
  "openViewer urls startIndex w =
     renderViewerImage
       (w\<lparr>st := (st w)\<lparr>viewer := (viewer (st w))
               \<lparr>images := urls,
                index := max 0 (min startIndex (int (length urls) - 1)),
                isOpen := True\<rparr>\<rparr>,
          page := (page w)\<lparr>viewerHidden := False, bodyOverflowHidden := True\<rparr>\<rparr>)"

definition closeViewer :: "world \<Rightarrow> world" where
  "closeViewer w =
     w\<lparr>st := (st w)\<lparr>viewer := (viewer (st w))\<lparr>isOpen := False\<rparr>\<rparr>,
        page := (page w)\<lparr>viewerHidden := True, bodyOverflowHidden := False,
                          viewerImageSrc := Some []\<rparr>\<rparr>"

definition prevImage :: "world \<Rightarrow> world" where
  "prevImage w =
     (let v = viewer (st w); n = int (length (images v)) in
      if images v = [] then w
      else renderViewerImage
             (w\<lparr>st := (st w)\<lparr>viewer := v\<lparr>index := js_rem (index v - 1 + n) n\<rparr>\<rparr>\<rparr>))"

definition nextImage :: "world \<Rightarrow> world" where
  "nextImage w =
     (let v = viewer (st w); n = int (length (images v)) in
      if images v = [] then w
      else renderViewerImage
             (w\<lparr>st := (st w)\<lparr>viewer := v\<lparr>index := js_rem (index v + 1) n\<rparr>\<rparr>\<rparr>))"

text \<open>The \<open>onload\<close> and \<open>onerror\<close> handlers of a pending image.\<close>

definition onload :: "img_load \<Rightarrow> world \<Rightarrow> world" where
  "onload l w =
     (if \<not> isOpen (viewer (st w)) then w
      else w\<lparr>page := (page w)\<lparr>viewerImageSrc := src l, viewerImageHidden := False,
                                viewerLoadingHidden := True\<rparr>\<rparr>)"

definition onerror :: "img_load \<Rightarrow> world \<Rightarrow> world" where
  "onerror l w =
     (if \<not> isOpen (viewer (st w)) then w
      else w\<lparr>page := (page w)\<lparr>viewerLoadingText := LoadError\<rparr>\<rparr>)"

text \<open>The \<open>k\<close>-th pending image finishes: it leaves the pending list and its handler runs.\<close>

definition imageSettled :: "nat \<Rightarrow> bool \<Rightarrow> world \<Rightarrow> world" where
  "imageSettled k ok w =
     (if k < length (loads w) then
        let l = loads w ! k;
            w1 = w\<lparr>loads := take k (loads w) @ drop (Suc k) (loads w)\<rparr>
        in if ok then onload l w1 else onerror l w1
      else w)"

definition touchstart :: "int \<Rightarrow> int \<Rightarrow> world \<Rightarrow> world" where
  "touchstart x y w =
     w\<lparr>st := (st w)\<lparr>viewer := (viewer (st w))\<lparr>touchStartX := x, touchStartY := y\<rparr>\<rparr>\<rparr>"

definition touchend :: "int \<Rightarrow> int \<Rightarrow> world \<Rightarrow> world" where
  "touchend x y w =
     (let dx = x - touchStartX (viewer (st w)); dy = y - touchStartY (viewer (st w)) in
      if \<bar>dx\<bar> < 40 \<or> \<bar>dx\<bar> < \<bar>dy\<bar> then w
      else if 0 < dx then prevImage w else nextImage w)"

text \<open>The click handler that \<open>renderVirtual\<close> puts on a thumbnail.\<close>

definition thumbClick :: "int \<Rightarrow> int \<Rightarrow> world \<Rightarrow> world" where
  "thumbClick groupIndex imgIndex w =
     openViewer (case js_nth (groups (st w)) groupIndex of Some g \<Rightarrow> imagesOf g | None \<Rightarrow> [])
       imgIndex w"

section \<open>Fetch controller\<close>

definition buildApiUrl :: "state \<Rightarrow> query" where
  "buildApiUrl s =
     \<lparr>patient_id = (if patientId s = [] then None else Some (patientId s)),
      category_code = categoryCode s, report_month = reportMonth s,
      page_num = pageNum s, page_size = pageSize s\<rparr>"

definition cancelInFlight :: "world \<Rightarrow> world" where
  "cancelInFlight w =
     (case abortController (st w) of
        None \<Rightarrow> w
      | Some c \<Rightarrow>
          w\<lparr>fetches := map (\<lambda>f. if controller f = c then f\<lparr>aborted := True\<rparr> else f) (fetches w),
             st := (st w)\<lparr>abortController := None\<rparr>\<rparr>)"

text \<open>The synchronous part of \<open>loadPage\<close>, up to and including the call of \<open>fetch\<close>.\<close>

definition loadPage :: "bool \<Rightarrow> world \<Rightarrow> world" where
  "loadPage r w =
     (if isLoading (st w) then w
      else if categoryCode (st w) = [] then showToast MissingCategory w
      else
        let w1 = (if r then w\<lparr>st := (st w)\<lparr>pageNum := 1\<rparr>\<rparr> else w);
            w2 = cancelInFlight w1;
            c = controllers w2;
            w3 = w2\<lparr>st := (st w2)\<lparr>abortController := Some c\<rparr>, controllers := c + 1\<rparr>;
            q = buildApiUrl (st w3);
            w4 = setEmptyVisible False (setNoMoreVisible False (setLoading True w3));
            s = st w4
        in w4\<lparr>fetches := fetches w4 @
                 [\<lparr>controller = c, aborted = False, url = q, reset = r,
                   preserveGroups = groups s, preserveHeights = heights s,
                   preserveOffsets = offsets s, preserveTotalHeight = totalHeight s,
                   preserveTotal = total_count s\<rparr>]\<rparr>)"

text \<open>The second \<open>then\<close> handler, past its \<open>throw\<close>: the response is applied.\<close>

definition onFulfilled :: "fetch \<Rightarrow> payload \<Rightarrow> world \<Rightarrow> world option" where
  "onFulfilled f d w =
     (let lst = (case p_list d of Some l \<Rightarrow> l | None \<Rightarrow> []);
          w1 = w\<lparr>st := (st w)\<lparr>total_count := p_total d\<rparr>\<rparr>
      in do {
        w2 \<leftarrow> (if reset f then
                 renderVirtual (recomputeLayout 0
                   (w1\<lparr>st := (st w1)\<lparr>groups := lst, heights := [], offsets := [],
                                       totalHeight := Some 0\<rparr>,
                       page := (page w1)\<lparr>scrollTop := 0\<rparr>\<rparr>))
               else
                 renderVirtual (recomputeLayout (int (length (groups (st w1))))
                   (w1\<lparr>st := (st w1)\<lparr>groups := groups (st w1) @ lst\<rparr>\<rparr>)));
        let w3 = (if total_count (st w2) = 0 then setEmptyVisible True w2 else w2);
        Some (if isAllLoaded (st w3) then setNoMoreVisible True w3
              else w3\<lparr>st := (st w3)\<lparr>pageNum := pageNum (st w3) + 1\<rparr>\<rparr>)
      })"

text \<open>The \<open>catch\<close> handler for an error that is not an \<open>AbortError\<close>; \<open>m\<close> is the toast
  text chosen from \<open>err.message\<close>.\<close>

definition onRejected :: "fetch \<Rightarrow> message \<Rightarrow> world \<Rightarrow> world option" where
  "onRejected f m w =
     map_option (showToast m)
       (renderVirtual (recomputeLayout 0
          (w\<lparr>st := (st w)\<lparr>groups := preserveGroups f, heights := preserveHeights f,
                            offsets := preserveOffsets f,
                            totalHeight := preserveTotalHeight f,
                            total_count := preserveTotal f\<rparr>\<rparr>)))"

definition onFinally :: "world \<Rightarrow> world" where
  "onFinally w =
     (let w1 = setLoading False w
      in w1\<lparr>st := (st w1)\<lparr>isLoading := False, abortController := None\<rparr>\<rparr>)"

text \<open>\<open>(data && data.message) || default\<close> and \<open>err.message ? err.message : default\<close>.\<close>

definition textOf :: "string option \<Rightarrow> message" where
  "textOf m = (case m of Some t \<Rightarrow> (if t = [] then LoadFailed else ServerMessage t) | None \<Rightarrow> LoadFailed)"

definition errorText :: "payload option \<Rightarrow> message" where
  "errorText d = (case d of Some p \<Rightarrow> textOf (p_message p) | None \<Rightarrow> LoadFailed)"

text \<open>
  The \<open>k\<close>-th request in flight settles and its chain runs to the end of \<open>finally\<close>. An
  aborted fetch rejects with an \<open>AbortError\<close>, whatever the server did: \<open>catch\<close> returns at
  once and \<open>finally\<close> runs.
\<close>

definition fetchSettled :: "nat \<Rightarrow> outcome \<Rightarrow> world \<Rightarrow> world option" where
  "fetchSettled k out w =
     (if k < length (fetches w) then
        let f = fetches w ! k;
            w1 = w\<lparr>fetches := take k (fetches w) @ drop (Suc k) (fetches w)\<rparr>
        in if aborted f then Some (onFinally w1)
           else (case out of
                   Rejected t \<Rightarrow> map_option onFinally (onRejected f (textOf (Some t)) w1)
                 | Reply ok d \<Rightarrow>
                     (case d of
                        None \<Rightarrow> map_option onFinally (onRejected f (errorText d) w1)
                      | Some p \<Rightarrow>
                          if \<not> ok \<or> \<not> p_success p
                          then map_option onFinally (onRejected f (errorText d) w1)
                          else map_option onFinally (onFulfilled f p w1)))
      else Some w)"

definition handleScroll :: "world \<Rightarrow> world option" where
  "handleScroll w =
     do {
       w1 \<leftarrow> renderVirtual w;
       if isLoading (st w1) then Some w1
       else if isAllLoaded (st w1) then Some w1
       else
         let bottom = scrollTop (page w1) + real_of_int (clientHeight (page w1)) in
         (case totalHeight (st w1) of
            None \<Rightarrow> Some w1
          | Some h \<Rightarrow> if real_of_int h - bottom < 600 then Some (loadPage False w1) else Some w1)
     }"

text \<open>The \<open>change\<close> handler of the month picker.\<close>

definition monthChange :: "string \<Rightarrow> world \<Rightarrow> world" where
  "monthChange val w =
     (if val = [] then w
      else
        let w1 = w\<lparr>st := (st w)\<lparr>reportMonth := val, groups := [], heights := [], offsets := [],
                                  totalHeight := Some 0, total_count := 0\<rparr>,
                    page := (page w)\<lparr>monthDisplay := val, virtualHeight := Some 0,
                                      rendered := None\<rparr>\<rparr>
        in loadPage True (setEmptyVisible False (setNoMoreVisible False w1)))"

text \<open>\<open>init\<close>: \<open>initDom\<close> reads the three data attributes of the scroll container and the
  value of the month picker, then the first page is requested. \<open>d\<close> is the page as the
  template delivered it.\<close>

definition init :: "string \<Rightarrow> string \<Rightarrow> string \<Rightarrow> string \<Rightarrow> dom \<Rightarrow> world" where
  "init pid cat ttl month d =
     loadPage True
       \<lparr>st = initial_state\<lparr>patientId := pid, categoryCode := cat, title := ttl,
                            reportMonth := month\<rparr>,
        page = d, fetches = [], loads = [], controllers = 0\<rparr>"

section \<open>Signals\<close>

text \<open>
  Everything that happens after \<open>init\<close> is one of these signals, each handled to the end
  before the next. A scroll or a resize first changes what the scroll container reports.
\<close>

datatype event =
    Scroll real
  | Resize int int
  | MonthChange string
  | FetchSettled nat outcome
  | ThumbClick int int
  | ViewerClose
  | ViewerPrev
  | ViewerNext
  | ViewerRetry
  | TouchStart int int
  | TouchEnd int int
  | ImageSettled nat bool

fun step :: "event \<Rightarrow> world \<Rightarrow> world option" where
  "step (Scroll y) w = handleScroll (w\<lparr>page := (page w)\<lparr>scrollTop := y\<rparr>\<rparr>)"
| "step (Resize cw ch) w = renderVirtual (w\<lparr>page := (page w)\<lparr>clientWidth := cw, clientHeight := ch\<rparr>\<rparr>)"
| "step (MonthChange val) w = Some (monthChange val w)"
| "step (FetchSettled k out) w = fetchSettled k out w"
| "step (ThumbClick gi ii) w = Some (thumbClick gi ii w)"
| "step ViewerClose w = Some (closeViewer w)"
| "step ViewerPrev w = Some (prevImage w)"
| "step ViewerNext w = Some (nextImage w)"
| "step ViewerRetry w = Some (renderViewerImage w)"
| "step (TouchStart x y) w = Some (touchstart x y w)"
| "step (TouchEnd x y) w = Some (touchend x y w)"
| "step (ImageSettled k ok) w = Some (imageSettled k ok w)"

text \<open>A run of signals; \<open>None\<close> when a handler on the way does not return.\<close>

fun run :: "event list \<Rightarrow> world \<Rightarrow> world option" where
  "run [] w = Some w"
| "run (e # es) w = (case step e w of None \<Rightarrow> None | Some w' \<Rightarrow> run es w')"

text \<open>The worlds the script can be in: after \<open>init\<close>, and after any signal handled from
  such a world.\<close>

inductive reachable :: "world \<Rightarrow> bool" where
  start: "reachable (init pid cat ttl month d)"
| after: "reachable w \<Longrightarrow> step e w = Some w' \<Longrightarrow> reachable w'"

section \<open>Predicates used in the statements\<close>

text \<open>
  The invariant of the layout table on its first \<open>k\<close> entries: \<open>heights[i]\<close> is a number,
  \<open>offsets[0]\<close> is \<open>0\<close> and \<open>offsets[i]\<close> is \<open>offsets[i - 1] + heights[i - 1]\<close>.
\<close>

definition layoutInv :: "nat \<Rightarrow> state \<Rightarrow> bool" where
  "layoutInv k s \<longleftrightarrow>
     (\<forall>i \<in> set [0..<k].
        js_get (heights s) (int i) \<noteq> None \<and>
        js_get (offsets s) (int i) =
          (if i = 0 then Some 0
           else jadd (js_get (offsets s) (int i - 1)) (js_get (heights s) (int i - 1))))"

text \<open>The sum of \<open>heights[0]\<close> to \<open>heights[k - 1]\<close>.\<close>

definition sumHeights :: "nat \<Rightarrow> state \<Rightarrow> int" where
  "sumHeights k s = sum_list (map or0 (take k (heights s)))"

text \<open>The first \<open>k\<close> heights are strictly positive.\<close>

definition positiveHeights :: "nat \<Rightarrow> state \<Rightarrow> bool" where
  "positiveHeights k s \<longleftrightarrow> (\<forall>i \<in> set [0..<k]. 0 < or0 (js_get (heights s) (int i)))"

text \<open>Item \<open>i\<close> holds the probe: \<open>offsets[i] \<le> y < offsets[i] + heights[i]\<close>.\<close>

definition itemHolds :: "state \<Rightarrow> nat \<Rightarrow> real \<Rightarrow> bool" where
  "itemHolds s i y \<longleftrightarrow>
     real_of_int (or0 (js_get (offsets s) (int i))) \<le> y \<and>
     y < real_of_int (or0 (js_get (offsets s) (int i)) + or0 (js_get (heights s) (int i)))"

text \<open>The table is the layout of the groups at container width \<open>cw\<close>: every height is
  the item height at that width, the offsets are the running sums and \<open>totalHeight\<close> is
  the sum of the heights.\<close>

definition laidOutAt :: "int \<Rightarrow> state \<Rightarrow> bool" where
  "laidOutAt cw s \<longleftrightarrow>
     (\<forall>i \<in> set [0..<length (groups s)].
        js_get (heights s) (int i) = Some (computeItemHeight (Some cw) (groups s ! i))) \<and>
     layoutInv (length (groups s)) s \<and>
     totalHeight s = Some (sumHeights (length (groups s)) s)"

text \<open>The outcomes that end in the \<open>catch\<close> handler: a rejected promise, or a response
  for which the \<open>then\<close> handler throws.\<close>

definition isFailure :: "outcome \<Rightarrow> bool" where
  "isFailure out = (case out of Rejected t \<Rightarrow> True
     | Reply ok d \<Rightarrow> (case d of None \<Rightarrow> True | Some p \<Rightarrow> \<not> ok \<or> \<not> p_success p))"

text \<open>The message of the error that reaches \<open>catch\<close>.\<close>

definition failureText :: "outcome \<Rightarrow> message" where
  "failureText out = (case out of Rejected t \<Rightarrow> textOf (Some t) | Reply ok d \<Rightarrow> errorText d)"

text \<open>At most one request is in flight, it is the one \<open>isLoading\<close> and
  \<open>abortController\<close> speak of, it has not been aborted, and nothing is loading when the
  category code is missing.\<close>

definition oneInFlight :: "world \<Rightarrow> bool" where
  "oneInFlight w \<longleftrightarrow>
     length (fetches w) \<le> 1 \<and>
     (isLoading (st w) \<longleftrightarrow> fetches w \<noteq> []) \<and>
     (isLoading (st w) \<longleftrightarrow> abortController (st w) \<noteq> None) \<and>
     (\<forall>f \<in> set (fetches w). \<not> aborted f) \<and>
     (categoryCode (st w) = [] \<longrightarrow> \<not> isLoading (st w))"

text \<open>The part of a world that \<open>oneInFlight\<close> depends on.\<close>

definition ctl :: "world \<Rightarrow> bool \<times> nat option \<times> string \<times> fetch list" where
  "ctl w = (isLoading (st w), abortController (st w), categoryCode (st w), fetches w)"

section \<open>Sample values\<close>

text \<open>A group with seven images.\<close>

definition group7 :: group where
  "group7 = \<lparr>report_date = ''2024-03-01'',
             image_urls = Some [''a'', ''b'', ''c'', ''d'', ''e'', ''f'', ''g'']\<rparr>"

text \<open>A page as a phone shows it: 375 pixels wide, 667 high, nothing rendered yet.\<close>

definition page375 :: dom where
  "page375 = \<lparr>clientWidth = 375, clientHeight = 667, scrollTop = 0, virtualHeight = None,
     rendered = None, spinnerHidden = True, noMoreHidden = True, emptyHidden = True,
     monthDisplay = ''2024-03'', toasts = [], viewerHidden = True,
     bodyOverflowHidden = False, viewerImageSrc = None, viewerImageHidden = True,
     viewerLoadingHidden = True, viewerLoadingText = Loading, viewerIndexText = None\<rparr>"

text \<open>A world just after a second group has been appended: the table still has the
  entries of the first group only.\<close>

definition appended :: world where
  "appended =
     \<lparr>st = initial_state\<lparr>categoryCode := ''blood_pressure'', reportMonth := ''2024-03'',
                            total_count := 25, groups := [group7, group7],
                            heights := [Some 411], offsets := [Some 0],
                            totalHeight := Some 411\<rparr>,
      page = page375, fetches = [], loads = [], controllers = 1\<rparr>"

text \<open>The state of \<open>appended\<close> once the table has been completed.\<close>

definition laidOut :: state where
  "laidOut = (st appended)\<lparr>heights := [Some 411, Some 411], offsets := [Some 0, Some 411],
                             totalHeight := Some 822\<rparr>"

text \<open>A world with two groups laid out and nothing in flight.\<close>

definition idle :: world where
  "idle = appended\<lparr>st := laidOut\<rparr>"

text \<open>The viewer opened on two images at the first one, then moved to the second: two
  images are pending, the first of them issued for index 0.\<close>

definition viewing :: world where
  "viewing = nextImage (openViewer [''a.jpg'', ''b.jpg''] 0 appended)"

text \<open>Two pages of the list for March 2024, of 25 groups in all, and the script started
  on that month.\<close>

definition marchPage :: payload where
  "marchPage = \<lparr>p_success = True, p_total = 25, p_list = Some [group7], p_message = None\<rparr>"

definition marchPage2 :: payload where
  "marchPage2 = \<lparr>p_success = True, p_total = 25,
      p_list = Some [\<lparr>report_date = ''2024-03-02'', image_urls = Some [''h'']\<rparr>],
      p_message = None\<rparr>"

definition started :: world where
  "started = init ''42'' ''blood_pressure'' ''Blood pressure'' ''2024-03'' page375"

text \<open>The first page arrives, the phone is turned so that the container is 800 wide, and
  a scroll signal requests the next page.\<close>

definition untilLoadMore :: "event list" where
  "untilLoadMore = [FetchSettled 0 (Reply True (Some marchPage)), Resize 800 600, Scroll 0]"

text \<open>The first page arrives, a scroll signal requests the next page, and while that
  request is pending the month picker is set to April.\<close>

definition untilMonthChange :: "event list" where
  "untilMonthChange =
     [FetchSettled 0 (Reply True (Some marchPage)), Scroll 0, MonthChange ''2024-04'']"

text \<open>A successful response with the given total and list.\<close>

definition fullReply :: "int \<Rightarrow> group list \<Rightarrow> outcome" where
  "fullReply n l =
     Reply True (Some \<lparr>p_success = True, p_total = n, p_list = Some l, p_message = None\<rparr>)"

text \<open>Pages of ten and of five groups.\<close>

definition tenGroups :: "group list" where
  "tenGroups = replicate 10 group7"

definition fiveGroups :: "group list" where
  "fiveGroups = replicate 5 group7"

section \<open>Item height\<close>

lemma ceil_third: "\<lceil>real n / 3\<rceil> = (int n + 2) div 3"
proof -
  have "\<lceil>real n / 3\<rceil> = \<lceil>real_of_int (int n) / real_of_int 3\<rceil>" by simp
  also have "\<dots> = - ((- int n) div 3)" by (simp only: ceiling_divide_eq_div)
  also have "\<dots> = (int n + 2) div 3" by presburger
  finally show ?thesis .
qed

lemma floor_third: "\<lfloor>real_of_int x / 3\<rfloor> = x div 3"
proof -
  have "\<lfloor>real_of_int x / 3\<rfloor> = \<lfloor>real_of_int x / real_of_int 3\<rfloor>" by simp
  also have "\<dots> = x div 3" by (simp only: floor_divide_of_int_eq)
  finally show ?thesis .
qed

text \<open>
  C7, as the code has it. The content width is the container width less 32 pixels of
  horizontal padding (never below 0), the minimum thumbnail edge is 56 and the fixed
  vertical part is \<open>16 + 24 + 12 + 16 = 68\<close>. For every width and every group:
  rows is the ceiling of a third of the image count and at least 1, the thumbnail edge
  is the floor of a third of the content width less two gaps and at least 56, and the
  item height is 68 plus rows times the edge plus one gap between rows. At container
  width 375 a group of seven images has 3 rows, edge 109 and height 411.
\<close>

theorem computeItemHeight_formula:
  "rowsOf g = max 1 ((int (length (imagesOf g)) + 2) div 3) \<and>
   thumb cw = max 56 ((max 0 (containerWidth cw - 32) - 2 * gap) div 3) \<and>
   gap = 8 \<and>
   computeItemHeight cw g = 68 + (rowsOf g * thumb cw + (rowsOf g - 1) * gap) \<and>
   (length (imagesOf g) = 7 \<longrightarrow>
      rowsOf g = 3 \<and> thumb (Some 375) = 109 \<and> computeItemHeight (Some 375) g = 411)"
proof -
  have r: "rowsOf g = max 1 ((int (length (imagesOf g)) + 2) div 3)"
    by (simp only: rowsOf_def ceil_third)
  have t: "thumb cw = max 56 ((max 0 (containerWidth cw - 32) - 2 * gap) div 3)" for cw
    by (simp only: thumb_def gridWidth_def floor_third mult.commute)
  have h: "computeItemHeight cw g = 68 + (rowsOf g * thumb cw + (rowsOf g - 1) * gap)" for cw
    by (simp add: computeItemHeight_def gridHeight_def)
  have t375: "thumb (Some 375) = 109"
    by (simp add: t containerWidth_def gap_def)
  have "rowsOf g = 3 \<and> computeItemHeight (Some 375) g = 411" if "length (imagesOf g) = 7"
    using that by (simp add: h r t375 gap_def)
  with r t h t375 show ?thesis by (simp add: gap_def)
qed

theorem computeItemHeight_formula_witness:
  "length (imagesOf group7) = 7 \<and> rowsOf group7 = 3 \<and> thumb (Some 375) = 109 \<and>
   computeItemHeight (Some 375) group7 = 411"
  using computeItemHeight_formula [of group7 "Some 375"]
  by (simp add: group7_def imagesOf_def)

text \<open>
  C7 as stated gives an edge of about 119 pixels at container width 375. The code takes
  the 32 pixels of padding off first: the edge is 109, ten pixels less, and the item is
  411 pixels high, not the 441 an edge of 119 would give.
\<close>

theorem thumb_375_not_119:
  "\<not> (\<bar>thumb (Some 375) - 119\<bar> < 10) \<and>
   computeItemHeight (Some 375) group7 \<noteq> 68 + (3 * 119 + 2 * 8)"
  by (simp add: thumb_def gridWidth_def containerWidth_def gap_def computeItemHeight_def
      gridHeight_def rowsOf_def imagesOf_def group7_def)

section \<open>Layout table\<close>

text \<open>Reading a slot after a write: only the written slot has changed.\<close>

lemma js_get_js_set: "js_get (js_set xs i v) j = (if j = int i then v else js_get xs j)"
  by (auto simp: js_get_def js_nth_def js_set_def nth_append nth_list_update split: option.splits)

lemma js_get_SomeD: "js_get xs (int i) \<noteq> None \<Longrightarrow> i < length xs \<and> xs ! i = js_get xs (int i)"
  by (auto simp: js_get_def js_nth_def split: if_splits)

lemma layoutLoop_unfold:
  "layoutLoop cw i s =
     (if i < length (groups s) then
        layoutLoop cw (i + 1)
          (s\<lparr>heights := js_set (heights s) i (Some (computeItemHeight cw (groups s ! i))),
             offsets := js_set (offsets s) i
               (if i = 0 then Some 0
                else jadd (js_get (offsets s) (int i - 1))
                       (js_get (js_set (heights s) i (Some (computeItemHeight cw (groups s ! i)))) (int i - 1)))\<rparr>)
      else s)"
  by (subst layoutLoop.simps) (simp add: Let_def)

lemma groups_layoutLoop: "groups (layoutLoop cw i s) = groups s"
  by (induction cw i s rule: layoutLoop.induct) (subst layoutLoop.simps, simp add: Let_def)

lemma layoutLoop_others_gen:
  "(layoutLoop cw i s)\<lparr>heights := hs, offsets := os\<rparr> = s\<lparr>heights := hs, offsets := os\<rparr>"
  by (induction cw i s rule: layoutLoop.induct) (subst layoutLoop.simps, simp add: Let_def)

lemma layoutLoop_others:
  "(layoutLoop cw i s)\<lparr>heights := heights s, offsets := offsets s\<rparr> = s"
  by (simp add: layoutLoop_others_gen)

lemma layoutLoop_below:
  "j < int i \<Longrightarrow>
     js_get (heights (layoutLoop cw i s)) j = js_get (heights s) j \<and>
     js_get (offsets (layoutLoop cw i s)) j = js_get (offsets s) j"
  by (induction cw i s rule: layoutLoop.induct)
     (subst (1 2) layoutLoop.simps, simp add: Let_def js_get_js_set)

lemma layoutInvD:
  "layoutInv k s \<Longrightarrow> i < k \<Longrightarrow>
     js_get (heights s) (int i) \<noteq> None \<and>
     js_get (offsets s) (int i) =
       (if i = 0 then Some 0
        else jadd (js_get (offsets s) (int i - 1)) (js_get (heights s) (int i - 1)))"
  by (simp add: layoutInv_def)

lemma layoutInv_mono: "layoutInv k s \<Longrightarrow> j \<le> k \<Longrightarrow> layoutInv j s"
  by (auto simp: layoutInv_def)

lemma layoutInv_loop:
  "layoutInv i s \<Longrightarrow> layoutInv (max i (length (groups s))) (layoutLoop cw i s)"
proof (induction cw i s rule: layoutLoop.induct)
  case (1 cw i s)
  show ?case
  proof (cases "i < length (groups s)")
    case False
    with "1.prems" show ?thesis by (subst layoutLoop.simps) (simp add: max_def)
  next
    case True
    define s1 where "s1 = s\<lparr>heights := js_set (heights s) i (Some (computeItemHeight cw (groups s ! i)))\<rparr>"
    define s2 where "s2 = s1\<lparr>offsets := js_set (offsets s1) i
                   (if i = 0 then Some 0
                    else jadd (js_get (offsets s1) (int i - 1)) (js_get (heights s1) (int i - 1)))\<rparr>"
    have inv: "layoutInv (i + 1) s2"
      using "1.prems" unfolding layoutInv_def s2_def s1_def
      by (auto simp: js_get_js_set less_Suc_eq)
    have g: "groups s2 = groups s" by (simp add: s2_def s1_def)
    have "layoutInv (max (i + 1) (length (groups s2))) (layoutLoop cw (i + 1) s2)"
      using "1.IH"[OF True s1_def s2_def inv] .
    moreover have "layoutLoop cw i s = layoutLoop cw (i + 1) s2"
      using True by (subst layoutLoop.simps) (simp add: Let_def s2_def s1_def)
    ultimately show ?thesis using True g by (simp add: max_def)
  qed
qed

lemma layoutInv_sum:
  "layoutInv k s \<Longrightarrow> i < k \<Longrightarrow> js_get (offsets s) (int i) = Some (sumHeights i s)"
proof (induction i)
  case 0
  then show ?case using layoutInvD[of k s 0] by (simp add: sumHeights_def)
next
  case (Suc i)
  then have IH: "js_get (offsets s) (int i) = Some (sumHeights i s)" by simp
  from layoutInvD[OF Suc.prems(1), of "Suc i"] Suc.prems(2)
  have b: "js_get (offsets s) (int (Suc i)) = jadd (js_get (offsets s) (int i)) (js_get (heights s) (int i))"
    by simp
  from layoutInvD[OF Suc.prems(1), of i] Suc.prems(2)
  have c: "js_get (heights s) (int i) \<noteq> None" by simp
  then obtain h where h: "js_get (heights s) (int i) = Some h" by auto
  from js_get_SomeD[OF c] h have l: "i < length (heights s)" and hi: "heights s ! i = Some h" by simp_all
  have "sumHeights (Suc i) s = sumHeights i s + h"
    using l hi by (simp add: sumHeights_def take_Suc_conv_app_nth or0_def)
  with b h IH show ?case by (simp add: jadd_def)
qed

lemma layoutInv_total:
  assumes "layoutInv n s" "0 < n"
  shows "jadd (js_get (offsets s) (int n - 1)) (js_get (heights s) (int n - 1)) = Some (sumHeights n s)"
proof -
  obtain m where n: "n = Suc m" using assms(2) by (cases n) auto
  from layoutInv_sum[OF assms(1), of m] n
  have o: "js_get (offsets s) (int m) = Some (sumHeights m s)" by simp
  from layoutInvD[OF assms(1), of m] n have c: "js_get (heights s) (int m) \<noteq> None" by simp
  then obtain h where h: "js_get (heights s) (int m) = Some h" by auto
  from js_get_SomeD[OF c] h have "m < length (heights s)" "heights s ! m = Some h" by simp_all
  then have "sumHeights (Suc m) s = sumHeights m s + h"
    by (simp add: sumHeights_def take_Suc_conv_app_nth or0_def)
  with o h n show ?thesis by (simp add: jadd_def)
qed

lemma layoutInv_totalHeight_update [simp]:
  "layoutInv k (s\<lparr>totalHeight := t\<rparr>) = layoutInv k s"
  by (simp add: layoutInv_def)

lemma sumHeights_totalHeight_update [simp]:
  "sumHeights k (s\<lparr>totalHeight := t\<rparr>) = sumHeights k s"
  by (simp add: sumHeights_def)

lemma relayout_invariant:
  assumes "layoutInv (nat (max 0 fromIndex)) s"
  shows "layoutInv (length (groups s)) (relayout cw fromIndex s)"
    and "groups (relayout cw fromIndex s) = groups s"
    and "totalHeight (relayout cw fromIndex s) = Some (sumHeights (length (groups s)) (relayout cw fromIndex s))"
proof -
  let ?k = "nat (max 0 fromIndex)"
  let ?n = "length (groups s)"
  let ?s1 = "layoutLoop cw ?k s"
  have "layoutInv (max ?k ?n) ?s1" using layoutInv_loop[OF assms] .
  then have inv: "layoutInv ?n ?s1" by (rule layoutInv_mono) simp
  have g: "groups ?s1 = groups s" by (rule groups_layoutLoop)
  show "layoutInv ?n (relayout cw fromIndex s)"
    using inv by (simp add: relayout_def Let_def)
  show "groups (relayout cw fromIndex s) = groups s"
    using g by (simp add: relayout_def Let_def)
  show "totalHeight (relayout cw fromIndex s) = Some (sumHeights ?n (relayout cw fromIndex s))"
  proof (cases "?n = 0")
    case True
    then show ?thesis using g by (simp add: relayout_def Let_def sumHeights_def)
  next
    case False
    then have "0 < ?n" by simp
    from layoutInv_total[OF inv this] g False show ?thesis
      by (simp add: relayout_def Let_def)
  qed
qed

text \<open>
  C1. When the entries below \<open>max(0, fromIndex)\<close> satisfy the invariant of the layout
  table, then after \<open>recomputeLayout(fromIndex)\<close> the whole table does, over the unchanged
  group sequence: every \<open>heights[i]\<close> is a number, \<open>offsets[0] = 0\<close> and
  \<open>offsets[i] = offsets[i - 1] + heights[i - 1]\<close>; equivalently \<open>offsets[i]\<close> is the sum of
  the heights before \<open>i\<close>; and \<open>totalHeight\<close> is the sum of all heights, which is \<open>0\<close> for
  an empty group sequence.
\<close>

theorem recomputeLayout_invariant:
  assumes "layoutInv (nat (max 0 fromIndex)) (st w)"
  shows "groups (st (recomputeLayout fromIndex w)) = groups (st w) \<and>
         layoutInv (length (groups (st w))) (st (recomputeLayout fromIndex w)) \<and>
         (\<forall>i < length (groups (st w)).
            js_get (offsets (st (recomputeLayout fromIndex w))) (int i) =
              Some (sumHeights i (st (recomputeLayout fromIndex w)))) \<and>
         totalHeight (st (recomputeLayout fromIndex w)) =
           Some (sumHeights (length (groups (st w))) (st (recomputeLayout fromIndex w))) \<and>
         (groups (st w) = [] \<longrightarrow> totalHeight (st (recomputeLayout fromIndex w)) = Some 0)"
proof -
  let ?cw = "Some (clientWidth (page w))"
  have st: "st (recomputeLayout fromIndex w) = relayout ?cw fromIndex (st w)"
    by (simp add: recomputeLayout_def Let_def)
  note r = relayout_invariant[OF assms, of ?cw]
  have "\<forall>i < length (groups (st w)).
          js_get (offsets (relayout ?cw fromIndex (st w))) (int i) =
            Some (sumHeights i (relayout ?cw fromIndex (st w)))"
    using layoutInv_sum[OF r(1)] by blast
  moreover have "groups (st w) = [] \<longrightarrow> totalHeight (relayout ?cw fromIndex (st w)) = Some 0"
    using r(3) by (auto simp: sumHeights_def)
  ultimately show ?thesis using r by (simp only: st)
qed

theorem recomputeLayout_invariant_witness:
  "layoutInv (nat (max 0 1)) (st appended) \<and>
   layoutInv (length (groups (st appended))) (st (recomputeLayout 1 appended)) \<and>
   js_get (offsets (st (recomputeLayout 1 appended))) (int 1) =
     Some (sumHeights 1 (st (recomputeLayout 1 appended))) \<and>
   totalHeight (st (recomputeLayout 1 appended)) =
     Some (sumHeights (length (groups (st appended))) (st (recomputeLayout 1 appended))) \<and>
   layoutInv (nat (max 0 0)) (st started) \<and> groups (st started) = [] \<and>
   totalHeight (st (recomputeLayout 0 started)) = Some 0"
proof -
  have h: "layoutInv (nat (max 0 1)) (st appended)"
    by (simp add: layoutInv_def appended_def initial_state_def js_get_def js_nth_def)
  have n: "(1::nat) < length (groups (st appended))"
    by (simp add: appended_def initial_state_def)
  note r = recomputeLayout_invariant [OF h]
  from r have a: "\<forall>i < length (groups (st appended)).
      js_get (offsets (st (recomputeLayout 1 appended))) (int i) =
        Some (sumHeights i (st (recomputeLayout 1 appended)))" by blast
  from a n have b: "js_get (offsets (st (recomputeLayout 1 appended))) (int 1) =
     Some (sumHeights 1 (st (recomputeLayout 1 appended)))" by blast
  from r have c: "layoutInv (length (groups (st appended))) (st (recomputeLayout 1 appended))"
    and d: "totalHeight (st (recomputeLayout 1 appended)) =
     Some (sumHeights (length (groups (st appended))) (st (recomputeLayout 1 appended)))"
    by blast+
  have h0: "layoutInv (nat (max 0 0)) (st started)" by (simp add: layoutInv_def)
  have g0: "groups (st started) = []"
    by (simp add: started_def init_def loadPage_def initial_state_def Let_def cancelInFlight_def
        setLoading_def setEmptyVisible_def setNoMoreVisible_def)
  from recomputeLayout_invariant [OF h0] g0
  have e: "totalHeight (st (recomputeLayout 0 started)) = Some 0" by blast
  from h b c d h0 g0 e show ?thesis by blast
qed

text \<open>
  C10. \<open>recomputeLayout(fromIndex)\<close> leaves the group sequence as it is, leaves
  \<open>heights[i]\<close> and \<open>offsets[i]\<close> as they are for every \<open>i\<close> below \<open>fromIndex\<close>, and changes
  nothing of the state but \<open>heights\<close>, \<open>offsets\<close> and \<open>totalHeight\<close>, and nothing of the page
  but the height of the virtual container. This holds for every \<open>fromIndex\<close>, so also for
  \<open>0 \<le> fromIndex \<le> groups.length\<close>.
\<close>

theorem recomputeLayout_frame:
  "groups (st (recomputeLayout fromIndex w)) = groups (st w) \<and>
   (\<forall>i. i < fromIndex \<longrightarrow>
      js_get (heights (st (recomputeLayout fromIndex w))) i = js_get (heights (st w)) i \<and>
      js_get (offsets (st (recomputeLayout fromIndex w))) i = js_get (offsets (st w)) i) \<and>
   (st (recomputeLayout fromIndex w))
     \<lparr>heights := heights (st w), offsets := offsets (st w), totalHeight := totalHeight (st w)\<rparr> = st w \<and>
   (page (recomputeLayout fromIndex w))\<lparr>virtualHeight := virtualHeight (page w)\<rparr> = page w \<and>
   fetches (recomputeLayout fromIndex w) = fetches w \<and>
   loads (recomputeLayout fromIndex w) = loads w \<and>
   controllers (recomputeLayout fromIndex w) = controllers w"
proof -
  let ?cw = "Some (clientWidth (page w))"
  let ?k = "nat (max 0 fromIndex)"
  have st: "st (recomputeLayout fromIndex w) = relayout ?cw fromIndex (st w)"
    by (simp add: recomputeLayout_def Let_def)
  have h: "heights (relayout ?cw fromIndex (st w)) = heights (layoutLoop ?cw ?k (st w))"
    and o: "offsets (relayout ?cw fromIndex (st w)) = offsets (layoutLoop ?cw ?k (st w))"
    by (simp_all add: relayout_def Let_def)
  have below: "js_get (heights (relayout ?cw fromIndex (st w))) i = js_get (heights (st w)) i \<and>
      js_get (offsets (relayout ?cw fromIndex (st w))) i = js_get (offsets (st w)) i"
    if "i < fromIndex" for i
  proof -
    from that have "i < int ?k \<or> i < 0" by linarith
    then show ?thesis
    proof
      assume "i < int ?k"
      from layoutLoop_below[OF this] show ?thesis by (simp only: h o)
    next
      assume "i < 0"
      then show ?thesis by (simp add: js_get_def js_nth_def)
    qed
  qed
  have others: "(relayout ?cw fromIndex (st w))
     \<lparr>heights := heights (st w), offsets := offsets (st w), totalHeight := totalHeight (st w)\<rparr> = st w"
  proof -
    have "(relayout ?cw fromIndex (st w))
       \<lparr>heights := heights (st w), offsets := offsets (st w), totalHeight := totalHeight (st w)\<rparr>
       = ((layoutLoop ?cw ?k (st w))\<lparr>heights := heights (st w), offsets := offsets (st w)\<rparr>)
           \<lparr>totalHeight := totalHeight (st w)\<rparr>"
      by (simp add: relayout_def Let_def)
    also have "\<dots> = (st w)\<lparr>totalHeight := totalHeight (st w)\<rparr>"
      by (simp only: layoutLoop_others)
    finally show ?thesis by simp
  qed
  have g: "groups (relayout ?cw fromIndex (st w)) = groups (st w)"
    by (simp add: relayout_def Let_def groups_layoutLoop)
  have rest: "(page (recomputeLayout fromIndex w))\<lparr>virtualHeight := virtualHeight (page w)\<rparr> = page w"
    "fetches (recomputeLayout fromIndex w) = fetches w"
    "loads (recomputeLayout fromIndex w) = loads w"
    "controllers (recomputeLayout fromIndex w) = controllers w"
    by (simp_all add: recomputeLayout_def Let_def)
  show ?thesis using below others g rest by (simp only: st) blast
qed

theorem recomputeLayout_frame_witness:
  "(0::int) < 1 \<and>
   js_get (heights (st (recomputeLayout 1 appended))) 0 = js_get (heights (st appended)) 0 \<and>
   js_get (offsets (st (recomputeLayout 1 appended))) 0 = js_get (offsets (st appended)) 0"
  using recomputeLayout_frame [of 1 appended] by simp

lemma appended_relayout_values:
  "heights (st (recomputeLayout 1 appended)) = [Some 411, Some 411]"
  "offsets (st (recomputeLayout 1 appended)) = [Some 0, Some 411]"
  "totalHeight (st (recomputeLayout 1 appended)) = Some 822"
  by (simp_all add: recomputeLayout_def relayout_def appended_def initial_state_def page375_def layoutLoop_unfold
     js_set_def js_get_def js_nth_def jadd_def computeItemHeight_def gridHeight_def rowsOf_def imagesOf_def
     thumb_def gridWidth_def containerWidth_def gap_def group7_def Let_def)

section \<open>Binary search\<close>

lemma sar1_mid: "0 \<le> x \<Longrightarrow> x < 2147483648 \<Longrightarrow> sar1 x = x div 2"
  by (simp add: sar1_def toInt32_def Let_def)

lemma sumHeights_Suc:
  assumes "layoutInv n s" "i < n"
  shows "sumHeights (Suc i) s = sumHeights i s + or0 (js_get (heights s) (int i))"
proof -
  from layoutInvD[OF assms] have c: "js_get (heights s) (int i) \<noteq> None" by simp
  then obtain h where h: "js_get (heights s) (int i) = Some h" by auto
  from js_get_SomeD[OF c] h have "i < length (heights s)" "heights s ! i = Some h" by simp_all
  then show ?thesis using h by (simp add: sumHeights_def take_Suc_conv_app_nth or0_def)
qed

lemma sumHeights_step:
  assumes "layoutInv n s" "positiveHeights n s" "i < n"
  shows "sumHeights i s < sumHeights (Suc i) s"
  using sumHeights_Suc[OF assms(1,3)] assms(2,3) by (simp add: positiveHeights_def)

lemma sumHeights_mono:
  assumes "layoutInv n s" "positiveHeights n s"
  shows "i \<le> j \<Longrightarrow> j \<le> n \<Longrightarrow> sumHeights i s \<le> sumHeights j s"
proof (induction j)
  case 0
  then show ?case by simp
next
  case (Suc j)
  show ?case
  proof (cases "i = Suc j")
    case True
    then show ?thesis by simp
  next
    case False
    with Suc.prems have "i \<le> j" "j < n" by simp_all
    with Suc.IH sumHeights_step[OF assms, of j] show ?thesis by simp
  qed
qed

text \<open>The table read at an integer index inside the array.\<close>

lemma table_at:
  assumes "layoutInv n s" "positiveHeights n s" "0 \<le> m" "m < int n"
  shows "or0 (js_get (offsets s) m) = sumHeights (nat m) s"
    and "or0 (js_get (offsets s) m) + or0 (js_get (heights s) m) = sumHeights (nat (m + 1)) s"
    and "sumHeights (nat m) s < sumHeights (nat (m + 1)) s"
proof -
  from assms(3,4) have i: "nat m < n" and m: "m = int (nat m)" by simp_all
  have sm: "nat (m + 1) = Suc (nat m)" using assms(3) by simp
  from layoutInv_sum[OF assms(1) i] m
  show o: "or0 (js_get (offsets s) m) = sumHeights (nat m) s" by (simp add: or0_def)
  from sumHeights_Suc[OF assms(1) i] m o
  show "or0 (js_get (offsets s) m) + or0 (js_get (heights s) m) = sumHeights (nat (m + 1)) s"
    by (simp add: sm)
  from sumHeights_step[OF assms(1,2) i] show "sumHeights (nat m) s < sumHeights (nat (m + 1)) s"
    by (simp add: sm)
qed

lemma searchLoop_step:
  assumes "low \<le> high" "0 \<le> low" "high < 1073741824"
  shows "searchLoop s y low high ans =
     (let mid = (low + high) div 2;
          start = or0 (js_get (offsets s) mid);
          fin = start + or0 (js_get (heights s) mid)
      in if real_of_int fin \<le> y then searchLoop s y (mid + 1) high ans
         else if y < real_of_int start then searchLoop s y low (mid - 1) ans
         else Some (low, high, mid))"
proof -
  have "sar1 (low + high) = (low + high) div 2"
    using assms by (intro sar1_mid) simp_all
  then show ?thesis using assms(1) by (subst searchLoop.simps) simp
qed

lemma searchLoop_exit: "high < low \<Longrightarrow> searchLoop s y low high ans = Some (low, high, ans)"
  by (subst searchLoop.simps) simp

text \<open>A probe before the first item of the interval searched.\<close>

lemma searchLoop_before:
  assumes inv: "layoutInv n s" and pos: "positiveHeights n s" and n: "int n \<le> 1073741824"
  shows "0 \<le> low \<Longrightarrow> high < int n \<Longrightarrow> y < real_of_int (sumHeights (nat low) s) \<Longrightarrow>
         \<exists>h'. searchLoop s y low high ans = Some (low, h', ans) \<and> h' < low"
proof (induction "nat (high - low + 1)" arbitrary: high rule: less_induct)
  case less
  show ?case
  proof (cases "high < low")
    case True
    then show ?thesis by (simp add: searchLoop_exit)
  next
    case False
    define mid where "mid = (low + high) div 2"
    have mid: "low \<le> mid" "mid \<le> high" using False by (simp_all add: mid_def)
    have m0: "0 \<le> mid" "mid < int n" using mid less.prems by simp_all
    note t = table_at[OF inv pos m0]
    have "sumHeights (nat low) s \<le> sumHeights (nat mid) s"
      using mid m0 less.prems by (intro sumHeights_mono[OF inv pos]) simp_all
    with less.prems(3) have lt: "y < real_of_int (sumHeights (nat mid) s)" by simp
    with t(3) have nge: "\<not> real_of_int (sumHeights (nat (mid + 1)) s) \<le> y" by simp
    have step: "searchLoop s y low high ans = searchLoop s y low (mid - 1) ans"
      using False less.prems n lt nge t(1,2)
      by (subst searchLoop_step) (simp_all add: Let_def mid_def[symmetric])
    have "\<exists>h'. searchLoop s y low (mid - 1) ans = Some (low, h', ans) \<and> h' < low"
      using mid m0 less.prems False by (intro less.hyps) simp_all
    with step show ?thesis by simp
  qed
qed

text \<open>A probe at or after the end of the last item of the interval searched.\<close>

lemma searchLoop_after:
  assumes inv: "layoutInv n s" and pos: "positiveHeights n s" and n: "int n \<le> 1073741824"
  shows "0 \<le> low \<Longrightarrow> high < int n \<Longrightarrow> low \<le> high + 1 \<Longrightarrow>
         real_of_int (sumHeights (nat (high + 1)) s) \<le> y \<Longrightarrow>
         searchLoop s y low high ans = Some (high + 1, high, ans)"
proof (induction "nat (high - low + 1)" arbitrary: low rule: less_induct)
  case less
  show ?case
  proof (cases "high < low")
    case True
    with less.prems have "low = high + 1" by simp
    with True show ?thesis by (simp add: searchLoop_exit)
  next
    case False
    define mid where "mid = (low + high) div 2"
    have mid: "low \<le> mid" "mid \<le> high" using False by (simp_all add: mid_def)
    have m0: "0 \<le> mid" "mid < int n" using mid less.prems by simp_all
    note t = table_at[OF inv pos m0]
    have "sumHeights (nat (mid + 1)) s \<le> sumHeights (nat (high + 1)) s"
      using mid m0 less.prems by (intro sumHeights_mono[OF inv pos]) simp_all
    with less.prems(4) have ge: "real_of_int (sumHeights (nat (mid + 1)) s) \<le> y" by simp
    have step: "searchLoop s y low high ans = searchLoop s y (mid + 1) high ans"
      using False less.prems n ge t(1,2)
      by (subst searchLoop_step) (simp_all add: Let_def mid_def[symmetric])
    have "searchLoop s y (mid + 1) high ans = Some (high + 1, high, ans)"
      using mid m0 less.prems False by (intro less.hyps) simp_all
    with step show ?thesis by simp
  qed
qed

text \<open>A probe inside the interval searched: the loop breaks at the item that holds it.\<close>

lemma searchLoop_inside:
  assumes inv: "layoutInv n s" and pos: "positiveHeights n s" and n: "int n \<le> 1073741824"
  shows "0 \<le> low \<Longrightarrow> high < int n \<Longrightarrow> low \<le> high + 1 \<Longrightarrow>
         real_of_int (sumHeights (nat low) s) \<le> y \<Longrightarrow>
         y < real_of_int (sumHeights (nat (high + 1)) s) \<Longrightarrow>
         \<exists>l' h' t. searchLoop s y low high ans = Some (l', h', t) \<and> l' \<le> h' \<and>
            low \<le> t \<and> t \<le> high \<and>
            real_of_int (sumHeights (nat t) s) \<le> y \<and>
            y < real_of_int (sumHeights (nat (t + 1)) s)"
proof (induction "nat (high - low + 1)" arbitrary: low high rule: less_induct)
  case less
  have lh: "low \<le> high"
  proof (rule ccontr)
    assume "\<not> low \<le> high"
    with less.prems(3) have "low = high + 1" by simp
    with less.prems(4,5) show False by simp
  qed
  define mid where "mid = (low + high) div 2"
  have mid: "low \<le> mid" "mid \<le> high" using lh by (simp_all add: mid_def)
  have m0: "0 \<le> mid" "mid < int n" using mid less.prems by simp_all
  note t = table_at[OF inv pos m0]
  note unf = searchLoop_step[OF lh less.prems(1), of s y ans, unfolded Let_def, folded mid_def]
  have hb: "high < 1073741824" using less.prems n by simp
  consider (right) "real_of_int (sumHeights (nat (mid + 1)) s) \<le> y"
    | (left) "y < real_of_int (sumHeights (nat mid) s)"
    | (hit) "real_of_int (sumHeights (nat mid) s) \<le> y" "y < real_of_int (sumHeights (nat (mid + 1)) s)"
    by linarith
  then show ?case
  proof cases
    case right
    have step: "searchLoop s y low high ans = searchLoop s y (mid + 1) high ans"
      using right t(1,2) unf[OF hb] by simp
    have "\<exists>l' h' t. searchLoop s y (mid + 1) high ans = Some (l', h', t) \<and> l' \<le> h' \<and>
            mid + 1 \<le> t \<and> t \<le> high \<and>
            real_of_int (sumHeights (nat t) s) \<le> y \<and>
            y < real_of_int (sumHeights (nat (t + 1)) s)"
      using mid m0 less.prems right lh by (intro less.hyps) simp_all
    then obtain l' h' t where r: "searchLoop s y (mid + 1) high ans = Some (l', h', t)" "l' \<le> h'"
            "mid + 1 \<le> t" "t \<le> high"
            "real_of_int (sumHeights (nat t) s) \<le> y"
            "y < real_of_int (sumHeights (nat (t + 1)) s)" by blast
    from r(3) mid have "low \<le> t" by simp
    with step r show ?thesis by auto
  next
    case left
    with t(3) have nge: "\<not> real_of_int (sumHeights (nat (mid + 1)) s) \<le> y" by simp
    have step: "searchLoop s y low high ans = searchLoop s y low (mid - 1) ans"
      using left nge t(1,2) unf[OF hb] by simp
    have "\<exists>l' h' t. searchLoop s y low (mid - 1) ans = Some (l', h', t) \<and> l' \<le> h' \<and>
            low \<le> t \<and> t \<le> mid - 1 \<and>
            real_of_int (sumHeights (nat t) s) \<le> y \<and>
            y < real_of_int (sumHeights (nat (t + 1)) s)"
      using mid m0 less.prems left lh by (intro less.hyps) simp_all
    then obtain l' h' t where r: "searchLoop s y low (mid - 1) ans = Some (l', h', t)" "l' \<le> h'"
            "low \<le> t" "t \<le> mid - 1"
            "real_of_int (sumHeights (nat t) s) \<le> y"
            "y < real_of_int (sumHeights (nat (t + 1)) s)" by blast
    from r(4) mid have "t \<le> high" by simp
    with step r show ?thesis by auto
  next
    case hit
    then have nge: "\<not> real_of_int (sumHeights (nat (mid + 1)) s) \<le> y"
      and nlt: "\<not> y < real_of_int (sumHeights (nat mid) s)" by simp_all
    have "searchLoop s y low high ans = Some (low, high, mid)"
      using nge nlt t(1,2) unf[OF hb] by simp
    with lh mid hit show ?thesis by auto
  qed
qed

lemma itemHolds_sum:
  assumes "layoutInv n s" "positiveHeights n s" "i < n"
  shows "itemHolds s i y \<longleftrightarrow>
     real_of_int (sumHeights i s) \<le> y \<and> y < real_of_int (sumHeights (Suc i) s)"
proof -
  from assms(3) have m: "0 \<le> int i" "int i < int n" by simp_all
  from table_at(1,2)[OF assms(1,2) m] show ?thesis
    by (simp add: itemHolds_def nat_add_distrib)
qed

lemma itemHolds_unique:
  assumes inv: "layoutInv n s" and pos: "positiveHeights n s"
    and i: "i < n" "itemHolds s i y" and j: "j < n" "itemHolds s j y"
  shows "j = i"
proof (rule ccontr)
  assume ne: "j \<noteq> i"
  from i itemHolds_sum[OF inv pos i(1)]
  have hi: "real_of_int (sumHeights i s) \<le> y" "y < real_of_int (sumHeights (Suc i) s)" by simp_all
  from j itemHolds_sum[OF inv pos j(1)]
  have hj: "real_of_int (sumHeights j s) \<le> y" "y < real_of_int (sumHeights (Suc j) s)" by simp_all
  from ne consider "Suc j \<le> i" | "Suc i \<le> j" by linarith
  then show False
  proof cases
    case 1
    from sumHeights_mono[OF inv pos 1] i(1) have "sumHeights (Suc j) s \<le> sumHeights i s" by simp
    with hi(1) hj(2) show False by simp
  next
    case 2
    from sumHeights_mono[OF inv pos 2] j(1) have "sumHeights (Suc i) s \<le> sumHeights j s" by simp
    with hj(1) hi(2) show False by simp
  qed
qed

text \<open>
  C2. For a table of \<open>n \<ge> 1\<close> entries that satisfies the invariant with strictly positive
  heights, \<open>findIndexByScrollTop\<close> returns: \<open>0\<close> for every probe below \<open>0\<close>; \<open>n - 1\<close> for
  every probe at or above \<open>totalHeight\<close>; and for a probe in \<open>[0, totalHeight)\<close> the index
  \<open>i\<close> with \<open>offsets[i] \<le> probe < offsets[i] + heights[i]\<close>, which is the only such index.
  In each case the search returns. The bound on \<open>n\<close> is the range in which \<open>low + high\<close>
  is a signed 32-bit integer, so that \<open>>> 1\<close> halves it.
\<close>

theorem findIndexByScrollTop_locates:
  assumes n1: "1 \<le> length (groups s)" and nb: "length (groups s) \<le> 1073741824"
    and inv: "layoutInv (length (groups s)) s"
    and pos: "positiveHeights (length (groups s)) s"
    and tot: "totalHeight s = Some (sumHeights (length (groups s)) s)"
  shows "(y < 0 \<longrightarrow> findIndexByScrollTop s y = Some 0) \<and>
         (real_of_int (or0 (totalHeight s)) \<le> y \<longrightarrow>
            findIndexByScrollTop s y = Some (int (length (groups s)) - 1)) \<and>
         (0 \<le> y \<and> y < real_of_int (or0 (totalHeight s)) \<longrightarrow>
            (\<exists>i < length (groups s).
               findIndexByScrollTop s y = Some (int i) \<and> itemHolds s i y \<and>
               (\<forall>j < length (groups s). itemHolds s j y \<longrightarrow> j = i)))"
proof -
  let ?n = "length (groups s)"
  have nb': "int ?n \<le> 1073741824" using nb by simp
  have T: "or0 (totalHeight s) = sumHeights ?n s" by (simp add: tot or0_def)
  have S0: "sumHeights 0 s = 0" by (simp add: sumHeights_def)
  have Sn: "nat (int ?n - 1 + 1) = ?n" by simp
  have before: "findIndexByScrollTop s y = Some 0" if "y < 0"
  proof -
    from that have "y < real_of_int (sumHeights (nat 0) s)" by (simp add: S0)
    from searchLoop_before[OF inv pos nb' _ _ this, of "int ?n - 1" 0]
    obtain h' where "searchLoop s y 0 (int ?n - 1) 0 = Some (0, h', 0)" "h' < 0" by auto
    then show ?thesis using n1 by (simp add: findIndexByScrollTop_def)
  qed
  have after: "findIndexByScrollTop s y = Some (int ?n - 1)"
    if "real_of_int (or0 (totalHeight s)) \<le> y"
  proof -
    from that have "real_of_int (sumHeights (nat (int ?n - 1 + 1)) s) \<le> y" by (simp add: T)
    from searchLoop_after[OF inv pos nb' _ _ _ this, of 0 0]
    have "searchLoop s y 0 (int ?n - 1) 0 = Some (int ?n - 1 + 1, int ?n - 1, 0)" by simp
    then show ?thesis using n1 by (simp add: findIndexByScrollTop_def)
  qed
  have inside: "\<exists>i < ?n. findIndexByScrollTop s y = Some (int i) \<and> itemHolds s i y \<and>
               (\<forall>j < ?n. itemHolds s j y \<longrightarrow> j = i)"
    if "0 \<le> y" "y < real_of_int (or0 (totalHeight s))"
  proof -
    from that have a: "real_of_int (sumHeights (nat 0) s) \<le> y"
      and b: "y < real_of_int (sumHeights (nat (int ?n - 1 + 1)) s)" by (simp_all add: S0 T)
    from searchLoop_inside[OF inv pos nb' _ _ _ a b, of 0]
    obtain l' h' t where r: "searchLoop s y 0 (int ?n - 1) 0 = Some (l', h', t)" "l' \<le> h'"
      "0 \<le> t" "t \<le> int ?n - 1"
      "real_of_int (sumHeights (nat t) s) \<le> y" "y < real_of_int (sumHeights (nat (t + 1)) s)"
      by auto
    define i where "i = nat t"
    have i: "i < ?n" "t = int i" using r(3,4) by (simp_all add: i_def)
    have f: "findIndexByScrollTop s y = Some (int i)"
      using r(1,2) i by (simp add: findIndexByScrollTop_def)
    have "nat (t + 1) = Suc i" using r(3) by (simp add: i_def)
    with r(5,6) have "real_of_int (sumHeights i s) \<le> y \<and> y < real_of_int (sumHeights (Suc i) s)"
      by (simp add: i_def)
    then have h: "itemHolds s i y"
      by (simp only: itemHolds_sum[OF inv pos i(1)])
    have "\<forall>j < ?n. itemHolds s j y \<longrightarrow> j = i"
      using itemHolds_unique[OF inv pos i(1) h] by blast
    with i f h show ?thesis by blast
  qed
  from before after inside show ?thesis by blast
qed

lemma laidOut_hyps:
  "1 \<le> length (groups laidOut)" "length (groups laidOut) \<le> 1073741824"
  "layoutInv (length (groups laidOut)) laidOut"
  "positiveHeights (length (groups laidOut)) laidOut"
  "totalHeight laidOut = Some (sumHeights (length (groups laidOut)) laidOut)"
  by (simp_all add: laidOut_def appended_def initial_state_def layoutInv_def positiveHeights_def
      sumHeights_def js_get_def js_nth_def jadd_def or0_def)

theorem findIndexByScrollTop_locates_witness:
  "1 \<le> length (groups laidOut) \<and> length (groups laidOut) \<le> 1073741824 \<and>
   layoutInv (length (groups laidOut)) laidOut \<and>
   positiveHeights (length (groups laidOut)) laidOut \<and>
   totalHeight laidOut = Some (sumHeights (length (groups laidOut)) laidOut) \<and>
   (- 5 :: real) < 0 \<and> findIndexByScrollTop laidOut (- 5) = Some 0 \<and>
   real_of_int (or0 (totalHeight laidOut)) \<le> 900 \<and>
   findIndexByScrollTop laidOut 900 = Some (int (length (groups laidOut)) - 1) \<and>
   (0 :: real) \<le> 500 \<and> 500 < real_of_int (or0 (totalHeight laidOut)) \<and>
   (\<exists>i < length (groups laidOut).
      findIndexByScrollTop laidOut 500 = Some (int i) \<and> itemHolds laidOut i 500 \<and>
      (\<forall>j < length (groups laidOut). itemHolds laidOut j 500 \<longrightarrow> j = i))"
proof -
  have t: "sumHeights (length (groups laidOut)) laidOut = 822"
    by (simp add: laidOut_def appended_def initial_state_def sumHeights_def or0_def)
  show ?thesis
    using laidOut_hyps
      findIndexByScrollTop_locates [OF laidOut_hyps, of "- 5"]
      findIndexByScrollTop_locates [OF laidOut_hyps, of 900]
      findIndexByScrollTop_locates [OF laidOut_hyps, of 500]
    by (simp add: t or0_def)
qed

lemma laidOut_search_values:
  "findIndexByScrollTop laidOut 500 = Some 1"
  "findIndexByScrollTop laidOut 410.5 = Some 0"
  by (simp_all add: findIndexByScrollTop_def searchLoop.simps laidOut_def appended_def
      initial_state_def sar1_def toInt32_def js_get_def js_nth_def or0_def Let_def)

section \<open>Viewer navigation and image loads\<close>

lemma js_rem_mod: "0 \<le> a \<Longrightarrow> 0 < b \<Longrightarrow> js_rem a b = a mod b"
  by (cases "a = 0") (simp_all add: js_rem_def)

lemma st_renderViewerImage: "st (renderViewerImage w) = st w"
  by (simp add: renderViewerImage_def Let_def)

lemma nextImage_viewer:
  "images (viewer (st w)) \<noteq> [] \<Longrightarrow>
     viewer (st (nextImage w)) =
       (viewer (st w))\<lparr>index := js_rem (index (viewer (st w)) + 1) (int (length (images (viewer (st w)))))\<rparr>"
  by (simp add: nextImage_def Let_def st_renderViewerImage)

lemma prevImage_viewer:
  "images (viewer (st w)) \<noteq> [] \<Longrightarrow>
     viewer (st (prevImage w)) =
       (viewer (st w))\<lparr>index := js_rem (index (viewer (st w)) - 1 + int (length (images (viewer (st w)))))
                                   (int (length (images (viewer (st w)))))\<rparr>"
  by (simp add: prevImage_def Let_def st_renderViewerImage)

lemma nextImage_funpow:
  assumes "images (viewer (st w)) \<noteq> []" "0 \<le> index (viewer (st w))"
    and that: "index (viewer (st w)) < int (length (images (viewer (st w))))"
  shows "images (viewer (st ((nextImage ^^ k) w))) = images (viewer (st w)) \<and>
         index (viewer (st ((nextImage ^^ k) w))) =
           (index (viewer (st w)) + int k) mod int (length (images (viewer (st w))))"
proof (induction k)
  case 0
  show ?case using assms that by simp
next
  case (Suc k)
  let ?w = "(nextImage ^^ k) w"
  let ?n = "int (length (images (viewer (st w))))"
  from Suc have im: "images (viewer (st ?w)) = images (viewer (st w))"
    and ix: "index (viewer (st ?w)) = (index (viewer (st w)) + int k) mod ?n" by simp_all
  have n: "0 < ?n" using assms(1) by simp
  have ne: "images (viewer (st ?w)) \<noteq> []" using im assms(1) by simp
  have "js_rem (index (viewer (st ?w)) + 1) ?n = (index (viewer (st ?w)) + 1) mod ?n"
    using n by (intro js_rem_mod) (simp_all add: ix)
  also have "\<dots> = ((index (viewer (st w)) + int k) + 1) mod ?n"
    by (simp only: ix mod_add_left_eq)
  also have "(index (viewer (st w)) + int k) + 1 = index (viewer (st w)) + int (Suc k)"
    by simp
  finally show ?case using nextImage_viewer[OF ne] im by simp
qed

lemma prevImage_funpow:
  assumes "images (viewer (st w)) \<noteq> []" "0 \<le> index (viewer (st w))"
    and that: "index (viewer (st w)) < int (length (images (viewer (st w))))"
  shows "images (viewer (st ((prevImage ^^ k) w))) = images (viewer (st w)) \<and>
         index (viewer (st ((prevImage ^^ k) w))) =
           (index (viewer (st w)) - int k) mod int (length (images (viewer (st w))))"
proof (induction k)
  case 0
  show ?case using assms that by simp
next
  case (Suc k)
  let ?w = "(prevImage ^^ k) w"
  let ?n = "int (length (images (viewer (st w))))"
  from Suc have im: "images (viewer (st ?w)) = images (viewer (st w))"
    and ix: "index (viewer (st ?w)) = (index (viewer (st w)) - int k) mod ?n" by simp_all
  have n: "0 < ?n" using assms(1) by simp
  have ne: "images (viewer (st ?w)) \<noteq> []" using im assms(1) by simp
  have lt: "index (viewer (st ?w)) < ?n" "0 \<le> index (viewer (st ?w))" using n by (simp_all add: ix)
  have "js_rem (index (viewer (st ?w)) - 1 + ?n) ?n = (index (viewer (st ?w)) - 1 + ?n) mod ?n"
    using n lt by (intro js_rem_mod) simp_all
  also have "\<dots> = (index (viewer (st ?w)) - 1) mod ?n"
    by (simp only: mod_add_self2)
  also have "\<dots> = ((index (viewer (st w)) - int k) - 1) mod ?n"
    by (simp only: ix mod_diff_left_eq)
  also have "(index (viewer (st w)) - int k) - 1 = index (viewer (st w)) - int (Suc k)"
    by simp
  finally show ?case using prevImage_viewer[OF ne] im by simp
qed

text \<open>
  C8. With no images \<open>nextImage\<close> and \<open>prevImage\<close> change nothing at all. With \<open>N \<ge> 1\<close>
  images and the index in \<open>[0, N)\<close>, \<open>nextImage\<close> sets the index to \<open>(index + 1) mod N\<close> and
  \<open>prevImage\<close> to \<open>(index - 1 + N) mod N\<close>; \<open>N\<close> applications of either bring the index
  back to where it started; with one image each leaves the index where it is.
\<close>

theorem viewer_navigation_cycle:
  "(images (viewer (st w)) = [] \<longrightarrow> nextImage w = w \<and> prevImage w = w) \<and>
   (images (viewer (st w)) \<noteq> [] \<and> 0 \<le> index (viewer (st w)) \<and>
    index (viewer (st w)) < int (length (images (viewer (st w)))) \<longrightarrow>
      index (viewer (st (nextImage w))) =
        (index (viewer (st w)) + 1) mod int (length (images (viewer (st w)))) \<and>
      index (viewer (st (prevImage w))) =
        (index (viewer (st w)) - 1 + int (length (images (viewer (st w)))))
          mod int (length (images (viewer (st w)))) \<and>
      index (viewer (st ((nextImage ^^ length (images (viewer (st w)))) w))) = index (viewer (st w)) \<and>
      index (viewer (st ((prevImage ^^ length (images (viewer (st w)))) w))) = index (viewer (st w)) \<and>
      (length (images (viewer (st w))) = 1 \<longrightarrow>
         index (viewer (st (nextImage w))) = index (viewer (st w)) \<and>
         index (viewer (st (prevImage w))) = index (viewer (st w))))"
proof -
  let ?n = "int (length (images (viewer (st w))))"
  let ?i = "index (viewer (st w))"
  have empty: "nextImage w = w \<and> prevImage w = w" if "images (viewer (st w)) = []"
    using that by (simp add: nextImage_def prevImage_def)
  have cyc: "index (viewer (st (nextImage w))) = (?i + 1) mod ?n \<and>
      index (viewer (st (prevImage w))) = (?i - 1 + ?n) mod ?n \<and>
      index (viewer (st ((nextImage ^^ length (images (viewer (st w)))) w))) = ?i \<and>
      index (viewer (st ((prevImage ^^ length (images (viewer (st w)))) w))) = ?i \<and>
      (length (images (viewer (st w))) = 1 \<longrightarrow>
         index (viewer (st (nextImage w))) = ?i \<and> index (viewer (st (prevImage w))) = ?i)"
    if ne: "images (viewer (st w)) \<noteq> []" and lo: "0 \<le> ?i" and hi: "?i < ?n"
  proof -
    have n: "0 < ?n" using ne by simp
    have a: "index (viewer (st (nextImage w))) = (?i + 1) mod ?n"
      using nextImage_viewer[OF ne] js_rem_mod[of "?i + 1" ?n] lo n by simp
    have b: "index (viewer (st (prevImage w))) = (?i - 1 + ?n) mod ?n"
      using prevImage_viewer[OF ne] js_rem_mod[of "?i - 1 + ?n" ?n] lo hi n by simp
    have c: "index (viewer (st ((nextImage ^^ length (images (viewer (st w)))) w))) = ?i"
      using nextImage_funpow[OF ne lo hi, of "length (images (viewer (st w)))"] lo hi by simp
    have d: "index (viewer (st ((prevImage ^^ length (images (viewer (st w)))) w))) = ?i"
      using prevImage_funpow[OF ne lo hi, of "length (images (viewer (st w)))"] lo hi by simp
    have e: "index (viewer (st (nextImage w))) = ?i \<and> index (viewer (st (prevImage w))) = ?i"
      if "length (images (viewer (st w))) = 1"
      using a b lo hi that by simp
    from a b c d e show ?thesis by blast
  qed
  from empty cyc show ?thesis by blast
qed

lemma viewing_values:
  "images (viewer (st viewing)) = [''a.jpg'', ''b.jpg'']"
  "index (viewer (st viewing)) = 1"
  "isOpen (viewer (st viewing))"
  "loads viewing = [\<lparr>src = Some ''a.jpg'', forIndex = 0\<rparr>, \<lparr>src = Some ''b.jpg'', forIndex = 1\<rparr>]"
  by (simp_all add: viewing_def nextImage_def openViewer_def renderViewerImage_def Let_def
      appended_def js_rem_def js_nth_def)

theorem viewer_navigation_cycle_witness:
  "images (viewer (st viewing)) \<noteq> [] \<and> 0 \<le> index (viewer (st viewing)) \<and>
   index (viewer (st viewing)) < int (length (images (viewer (st viewing)))) \<and>
   index (viewer (st (nextImage viewing))) = 0 \<and>
   index (viewer (st (prevImage viewing))) = 0 \<and>
   index (viewer (st ((nextImage ^^ 2) viewing))) = 1 \<and>
   index (viewer (st ((prevImage ^^ 2) viewing))) = 1 \<and>
   images (viewer (st appended)) = [] \<and> nextImage appended = appended \<and>
   prevImage appended = appended \<and>
   length (images (viewer (st (openViewer [''a.jpg''] 0 appended)))) = 1 \<and>
   index (viewer (st (nextImage (openViewer [''a.jpg''] 0 appended)))) = 0 \<and>
   index (viewer (st (prevImage (openViewer [''a.jpg''] 0 appended)))) = 0"
proof -
  have one: "images (viewer (st (openViewer [''a.jpg''] 0 appended))) = [''a.jpg'']"
    "index (viewer (st (openViewer [''a.jpg''] 0 appended))) = 0"
    by (simp_all add: openViewer_def renderViewerImage_def Let_def)
  have none: "images (viewer (st appended)) = []"
    by (simp add: appended_def initial_state_def initial_viewer_def)
  show ?thesis
    using viewer_navigation_cycle [of viewing] viewer_navigation_cycle [of appended]
      viewer_navigation_cycle [of "openViewer [''a.jpg''] 0 appended"]
    by (simp add: viewing_values numeral_2_eq_2 one none)
qed

text \<open>
  C6, as the code has it. The \<open>onload\<close> handler looks at \<open>state.viewer.isOpen\<close> only. A
  load that completes while the viewer is closed changes neither the page nor the state.
  A load that completes while the viewer is open is displayed, whatever index the
  viewer is at by then.
\<close>

theorem imageSettled_renders_when_open:
  "k < length (loads w) \<longrightarrow>
     (\<not> isOpen (viewer (st w)) \<longrightarrow>
        page (imageSettled k True w) = page w \<and> st (imageSettled k True w) = st w) \<and>
     (isOpen (viewer (st w)) \<longrightarrow>
        viewerImageSrc (page (imageSettled k True w)) = src (loads w ! k) \<and>
        \<not> viewerImageHidden (page (imageSettled k True w)) \<and>
        viewerLoadingHidden (page (imageSettled k True w)) \<and>
        st (imageSettled k True w) = st w)"
  by (simp add: imageSettled_def onload_def Let_def)

theorem imageSettled_renders_when_open_witness:
  "(0::nat) < length (loads viewing) \<and> isOpen (viewer (st viewing)) \<and>
   viewerImageSrc (page (imageSettled 0 True viewing)) = src (loads viewing ! 0) \<and>
   (0::nat) < length (loads (closeViewer viewing)) \<and> \<not> isOpen (viewer (st (closeViewer viewing))) \<and>
   page (imageSettled 0 True (closeViewer viewing)) = page (closeViewer viewing)"
  using imageSettled_renders_when_open [of 0 viewing]
    imageSettled_renders_when_open [of 0 "closeViewer viewing"]
  by (simp add: viewing_values closeViewer_def)

text \<open>
  C6 as stated also discards a load when the viewer has moved to another index. In
  \<open>viewing\<close> the viewer is open at index 1, the first pending load was issued for index 0,
  and when it completes its image is displayed although the current image is the other
  one.
\<close>

theorem stale_image_is_rendered:
  "isOpen (viewer (st viewing)) \<and> index (viewer (st viewing)) = 1 \<and>
   forIndex (loads viewing ! 0) = 0 \<and>
   viewerImageSrc (page (imageSettled 0 True viewing)) = Some ''a.jpg'' \<and>
   \<not> viewerImageHidden (page (imageSettled 0 True viewing)) \<and>
   js_nth (images (viewer (st viewing))) (index (viewer (st viewing))) = Some ''b.jpg''"
  by (simp add: viewing_values imageSettled_def onload_def Let_def js_nth_def)

section \<open>Rendering returns\<close>

lemma searchLoop_returns:
  "0 \<le> low \<Longrightarrow> high < 1073741824 \<Longrightarrow> \<exists>r. searchLoop s y low high ans = Some r"
proof (induction "nat (high - low + 1)" arbitrary: low high rule: less_induct)
  case less
  show ?case
  proof (cases "high < low")
    case True
    then show ?thesis by (simp add: searchLoop_exit)
  next
    case False
    define mid where "mid = (low + high) div 2"
    have mid: "low \<le> mid" "mid \<le> high" using False by (simp_all add: mid_def)
    have lh: "low \<le> high" using False by simp
    note unf = searchLoop_step[OF lh less.prems, of s y ans, unfolded Let_def, folded mid_def]
    have r: "\<exists>r. searchLoop s y (mid + 1) high ans = Some r"
      using mid less.prems by (intro less.hyps) simp_all
    have l: "\<exists>r. searchLoop s y low (mid - 1) ans = Some r"
      using mid less.prems by (intro less.hyps) simp_all
    from r l show ?thesis by (simp add: unf)
  qed
qed

lemma findIndexByScrollTop_returns:
  "length (groups s) \<le> 1073741824 \<Longrightarrow> \<exists>i. findIndexByScrollTop s y = Some i"
proof -
  assume "length (groups s) \<le> 1073741824"
  then have "int (length (groups s)) - 1 < 1073741824" by simp
  from searchLoop_returns[OF _ this, of 0 s y 0]
  obtain r where "searchLoop s y 0 (int (length (groups s)) - 1) 0 = Some r" by auto
  then show ?thesis by (cases r) (simp add: findIndexByScrollTop_def)
qed

lemma renderVirtual_returns:
  assumes "length (groups (st w)) \<le> 1073741824"
  shows "\<exists>r. renderVirtual w = Some (w\<lparr>page := (page w)\<lparr>rendered := r\<rparr>\<rparr>)"
proof (cases "groups (st w) = []")
  case True
  then show ?thesis by (auto simp: renderVirtual_def)
next
  case False
  from findIndexByScrollTop_returns[OF assms]
  obtain a where a: "findIndexByScrollTop (st w) (max 0 (scrollTop (page w) - 200)) = Some a" by blast
  from findIndexByScrollTop_returns[OF assms]
  obtain b where b: "findIndexByScrollTop (st w)
      (scrollTop (page w) + real_of_int (clientHeight (page w)) + 400) = Some b" by blast
  from False a b show ?thesis by (simp add: renderVirtual_def Let_def) blast
qed

lemma renderVirtual_SomeD:
  assumes "renderVirtual w = Some w'"
  shows "\<exists>r. w' = w\<lparr>page := (page w)\<lparr>rendered := r\<rparr>\<rparr>"
proof (cases "groups (st w) = []")
  case True
  with assms show ?thesis by (auto simp: renderVirtual_def)
next
  case False
  with assms show ?thesis
    by (auto simp: renderVirtual_def Let_def split: Option.bind_splits)
qed

lemma renderVirtual_st:
  "renderVirtual w = Some w' \<Longrightarrow>
     st w' = st w \<and> fetches w' = fetches w \<and> loads w' = loads w \<and> controllers w' = controllers w \<and>
     toasts (page w') = toasts (page w) \<and> noMoreHidden (page w') = noMoreHidden (page w) \<and>
     scrollTop (page w') = scrollTop (page w) \<and> clientHeight (page w') = clientHeight (page w) \<and>
     clientWidth (page w') = clientWidth (page w)"
  using renderVirtual_SomeD[of w w'] by auto

section \<open>One request in flight\<close>

lemma relayout_others:
  "(relayout cw k s)\<lparr>heights := hs, offsets := os, totalHeight := t\<rparr> =
     s\<lparr>heights := hs, offsets := os, totalHeight := t\<rparr>"
proof -
  have "(relayout cw k s)\<lparr>heights := hs, offsets := os, totalHeight := t\<rparr> =
        ((layoutLoop cw (nat (max 0 k)) s)\<lparr>heights := hs, offsets := os\<rparr>)\<lparr>totalHeight := t\<rparr>"
    by (simp add: relayout_def Let_def)
  also have "\<dots> = (s\<lparr>heights := hs, offsets := os\<rparr>)\<lparr>totalHeight := t\<rparr>"
    by (simp only: layoutLoop_others_gen)
  finally show ?thesis by simp
qed

lemma relayout_fields:
  "isLoading (relayout cw k s) = isLoading s"
  "abortController (relayout cw k s) = abortController s"
  "categoryCode (relayout cw k s) = categoryCode s"
  "total_count (relayout cw k s) = total_count s"
  "pageNum (relayout cw k s) = pageNum s"
  "pageSize (relayout cw k s) = pageSize s"
  "reportMonth (relayout cw k s) = reportMonth s"
  "patientId (relayout cw k s) = patientId s"
  "groups (relayout cw k s) = groups s"
  "viewer (relayout cw k s) = viewer s"
  using arg_cong[OF relayout_others[where cw=cw and k=k and s=s and hs="[]" and os="[]" and t=None], of isLoading]
    arg_cong[OF relayout_others[where cw=cw and k=k and s=s and hs="[]" and os="[]" and t=None], of abortController]
    arg_cong[OF relayout_others[where cw=cw and k=k and s=s and hs="[]" and os="[]" and t=None], of categoryCode]
    arg_cong[OF relayout_others[where cw=cw and k=k and s=s and hs="[]" and os="[]" and t=None], of total_count]
    arg_cong[OF relayout_others[where cw=cw and k=k and s=s and hs="[]" and os="[]" and t=None], of pageNum]
    arg_cong[OF relayout_others[where cw=cw and k=k and s=s and hs="[]" and os="[]" and t=None], of pageSize]
    arg_cong[OF relayout_others[where cw=cw and k=k and s=s and hs="[]" and os="[]" and t=None], of reportMonth]
    arg_cong[OF relayout_others[where cw=cw and k=k and s=s and hs="[]" and os="[]" and t=None], of patientId]
    arg_cong[OF relayout_others[where cw=cw and k=k and s=s and hs="[]" and os="[]" and t=None], of groups]
    arg_cong[OF relayout_others[where cw=cw and k=k and s=s and hs="[]" and os="[]" and t=None], of viewer]
  by simp_all

lemma ctl_recomputeLayout: "ctl (recomputeLayout k w) = ctl w"
  by (simp add: ctl_def recomputeLayout_def Let_def relayout_fields)

lemma ctl_renderVirtual: "renderVirtual w = Some w' \<Longrightarrow> ctl w' = ctl w"
  using renderVirtual_SomeD[of w w'] by (auto simp: ctl_def)

lemma ctl_simple:
  "ctl (showToast m w) = ctl w"
  "ctl (setEmptyVisible b w) = ctl w"
  "ctl (setNoMoreVisible b w) = ctl w"
  by (simp_all add: ctl_def showToast_def setEmptyVisible_def setNoMoreVisible_def)

lemma ctl_viewer:
  "ctl (renderViewerImage w) = ctl w"
  "ctl (openViewer us i w) = ctl w"
  "ctl (closeViewer w) = ctl w"
  "ctl (prevImage w) = ctl w"
  "ctl (nextImage w) = ctl w"
  "ctl (touchstart x y w) = ctl w"
  "ctl (imageSettled k ok w) = ctl w"
  by (simp_all add: ctl_def renderViewerImage_def openViewer_def closeViewer_def prevImage_def
      nextImage_def touchstart_def imageSettled_def onload_def onerror_def Let_def)

lemma ctl_touchend: "ctl (touchend x y w) = ctl w"
  by (simp add: touchend_def Let_def ctl_viewer)

lemma ctl_thumbClick: "ctl (thumbClick gi ii w) = ctl w"
  by (simp add: thumbClick_def ctl_viewer)

lemma oneInFlight_ctl: "ctl w' = ctl w \<Longrightarrow> oneInFlight w' = oneInFlight w"
  by (simp add: ctl_def oneInFlight_def)

lemma ctl_onRejected: "onRejected f m w = Some w' \<Longrightarrow> ctl w' = ctl w"
proof -
  assume "onRejected f m w = Some w'"
  then obtain w1 where r: "renderVirtual (recomputeLayout 0
          (w\<lparr>st := (st w)\<lparr>groups := preserveGroups f, heights := preserveHeights f,
                            offsets := preserveOffsets f,
                            totalHeight := preserveTotalHeight f,
                            total_count := preserveTotal f\<rparr>\<rparr>)) = Some w1"
    and w': "w' = showToast m w1"
    by (auto simp: onRejected_def)
  from ctl_renderVirtual[OF r] w' show ?thesis
    by (simp add: ctl_simple ctl_recomputeLayout) (simp add: ctl_def)
qed

lemma ctl_onFulfilled: "onFulfilled f d w = Some w' \<Longrightarrow> ctl w' = ctl w"
proof -
  assume a: "onFulfilled f d w = Some w'"
  let ?lst = "case p_list d of Some l \<Rightarrow> l | None \<Rightarrow> []"
  let ?w1 = "w\<lparr>st := (st w)\<lparr>total_count := p_total d\<rparr>\<rparr>"
  let ?arg = "if reset f then
                 recomputeLayout 0
                   (?w1\<lparr>st := (st ?w1)\<lparr>groups := ?lst, heights := [], offsets := [],
                                       totalHeight := Some 0\<rparr>,
                       page := (page ?w1)\<lparr>scrollTop := 0\<rparr>\<rparr>)
               else
                 recomputeLayout (int (length (groups (st ?w1))))
                   (?w1\<lparr>st := (st ?w1)\<lparr>groups := groups (st ?w1) @ ?lst\<rparr>\<rparr>)"
  from a obtain w2 where r: "renderVirtual ?arg = Some w2"
    and w': "w' = (let w3 = (if total_count (st w2) = 0 then setEmptyVisible True w2 else w2)
                   in if isAllLoaded (st w3) then setNoMoreVisible True w3
                      else w3\<lparr>st := (st w3)\<lparr>pageNum := pageNum (st w3) + 1\<rparr>\<rparr>)"
    by (auto simp: onFulfilled_def Let_def split: if_splits Option.bind_splits)
  have "ctl ?arg = ctl w" by (simp add: ctl_recomputeLayout) (simp add: ctl_def)
  with ctl_renderVirtual[OF r] have c2: "ctl w2 = ctl w" by simp
  have "ctl w' = ctl w2"
    unfolding w' by (simp add: Let_def ctl_simple) (simp add: ctl_def setEmptyVisible_def)
  with c2 show ?thesis by simp
qed

lemma oneInFlight_loadPage: "oneInFlight w \<Longrightarrow> oneInFlight (loadPage r w)"
  by (auto simp: oneInFlight_def loadPage_def Let_def showToast_def cancelInFlight_def
      setLoading_def setEmptyVisible_def setNoMoreVisible_def)

lemma oneInFlight_onFinally:
  "fetches w = [] \<Longrightarrow> oneInFlight (onFinally w)"
  by (simp add: oneInFlight_def onFinally_def setLoading_def Let_def)

lemma fetches_ctl: "ctl w' = ctl w \<Longrightarrow> fetches w' = fetches w"
  by (simp add: ctl_def)

lemma fetchSettled_aborted:
  "k < length (fetches w) \<Longrightarrow> aborted (fetches w ! k) \<Longrightarrow>
     fetchSettled k out w =
       Some (onFinally (w\<lparr>fetches := take k (fetches w) @ drop (Suc k) (fetches w)\<rparr>))"
  by (simp add: fetchSettled_def Let_def)

lemma fetchSettled_failure:
  "k < length (fetches w) \<Longrightarrow> \<not> aborted (fetches w ! k) \<Longrightarrow> isFailure out \<Longrightarrow>
     fetchSettled k out w =
       map_option onFinally
         (onRejected (fetches w ! k) (failureText out)
            (w\<lparr>fetches := take k (fetches w) @ drop (Suc k) (fetches w)\<rparr>))"
  by (auto simp: fetchSettled_def Let_def isFailure_def failureText_def
      split: outcome.splits option.splits)

lemma fetchSettled_success:
  "k < length (fetches w) \<Longrightarrow> \<not> aborted (fetches w ! k) \<Longrightarrow> p_success p \<Longrightarrow>
     fetchSettled k (Reply True (Some p)) w =
       map_option onFinally
         (onFulfilled (fetches w ! k) p
            (w\<lparr>fetches := take k (fetches w) @ drop (Suc k) (fetches w)\<rparr>))"
  by (simp add: fetchSettled_def Let_def)

lemma not_isFailure: "\<not> isFailure out \<Longrightarrow> \<exists>p. out = Reply True (Some p) \<and> p_success p"
  by (auto simp: isFailure_def split: outcome.splits option.splits)

lemma oneInFlight_fetchSettled:
  assumes "oneInFlight w" "fetchSettled k out w = Some w'"
  shows "oneInFlight w'"
proof (cases "k < length (fetches w)")
  case False
  with assms show ?thesis by (simp add: fetchSettled_def)
next
  case True
  with assms(1) have k: "k = 0" and l: "length (fetches w) = 1" by (simp_all add: oneInFlight_def)
  let ?w1 = "w\<lparr>fetches := take k (fetches w) @ drop (Suc k) (fetches w)\<rparr>"
  let ?f = "fetches w ! k"
  have e: "fetches ?w1 = []" using k l by simp
  show ?thesis
  proof (cases "aborted ?f")
    case True
    with assms(2) fetchSettled_aborted[OF \<open>k < length (fetches w)\<close> True, of out]
    have "w' = onFinally ?w1" by simp
    with e show ?thesis by (simp only: oneInFlight_onFinally)
  next
    case na: False
    show ?thesis
    proof (cases "isFailure out")
      case True
      from assms(2) fetchSettled_failure[OF \<open>k < length (fetches w)\<close> na True]
      obtain w2 where w2: "onRejected ?f (failureText out) ?w1 = Some w2" "w' = onFinally w2"
        by auto
      from fetches_ctl[OF ctl_onRejected[OF w2(1)]] e have "fetches w2 = []" by simp
      with w2(2) show ?thesis by (simp only: oneInFlight_onFinally)
    next
      case False
      from not_isFailure[OF False] obtain p where p: "out = Reply True (Some p)" "p_success p" by blast
      from assms(2) fetchSettled_success[OF \<open>k < length (fetches w)\<close> na p(2)] p(1)
      obtain w2 where w2: "onFulfilled ?f p ?w1 = Some w2" "w' = onFinally w2"
        by auto
      from fetches_ctl[OF ctl_onFulfilled[OF w2(1)]] e have "fetches w2 = []" by simp
      with w2(2) show ?thesis by (simp only: oneInFlight_onFinally)
    qed
  qed
qed

lemma oneInFlight_handleScroll:
  assumes "oneInFlight w" "handleScroll w = Some w'"
  shows "oneInFlight w'"
proof -
  from assms(2) obtain w1 where r: "renderVirtual w = Some w1"
    and w': "w' = w1 \<or> w' = loadPage False w1"
    by (auto simp: handleScroll_def Let_def split: Option.bind_splits if_splits option.splits)
  from oneInFlight_ctl[OF ctl_renderVirtual[OF r]] assms(1) have "oneInFlight w1" by simp
  with w' oneInFlight_loadPage show ?thesis by auto
qed

lemma oneInFlight_monthChange: "oneInFlight w \<Longrightarrow> oneInFlight (monthChange val w)"
proof (cases "val = []")
  case True
  assume "oneInFlight w" with True show ?thesis by (simp add: monthChange_def)
next
  case False
  assume a: "oneInFlight w"
  let ?w1 = "w\<lparr>st := (st w)\<lparr>reportMonth := val, groups := [], heights := [], offsets := [],
                                  totalHeight := Some 0, total_count := 0\<rparr>,
                    page := (page w)\<lparr>monthDisplay := val, virtualHeight := Some 0,
                                      rendered := None\<rparr>\<rparr>"
  have "ctl (setEmptyVisible False (setNoMoreVisible False ?w1)) = ctl w"
    by (simp add: ctl_simple) (simp add: ctl_def)
  from oneInFlight_ctl[OF this] a
  have "oneInFlight (setEmptyVisible False (setNoMoreVisible False ?w1))" by simp
  from oneInFlight_loadPage[OF this] False show ?thesis by (simp add: monthChange_def Let_def)
qed

lemma oneInFlight_step:
  assumes "oneInFlight w" "step e w = Some w'"
  shows "oneInFlight w'"
proof (cases e)
  case (Scroll y)
  have "ctl (w\<lparr>page := (page w)\<lparr>scrollTop := y\<rparr>\<rparr>) = ctl w" by (simp add: ctl_def)
  from oneInFlight_ctl[OF this] assms(1) have "oneInFlight (w\<lparr>page := (page w)\<lparr>scrollTop := y\<rparr>\<rparr>)" by simp
  from oneInFlight_handleScroll[OF this] assms(2) Scroll show ?thesis by simp
next
  case (Resize cw ch)
  have c: "ctl (w\<lparr>page := (page w)\<lparr>clientWidth := cw, clientHeight := ch\<rparr>\<rparr>) = ctl w" by (simp add: ctl_def)
  from assms(2) Resize have "renderVirtual (w\<lparr>page := (page w)\<lparr>clientWidth := cw, clientHeight := ch\<rparr>\<rparr>) = Some w'" by simp
  from ctl_renderVirtual[OF this] c have "ctl w' = ctl w" by simp
  from oneInFlight_ctl[OF this] assms(1) show ?thesis by simp
next
  case (MonthChange val)
  with assms oneInFlight_monthChange show ?thesis by auto
next
  case (FetchSettled k out)
  with assms oneInFlight_fetchSettled show ?thesis by auto
next
  case (ThumbClick gi ii)
  with assms oneInFlight_ctl[OF ctl_thumbClick] show ?thesis by auto
next
  case ViewerClose
  with assms oneInFlight_ctl[OF ctl_viewer(3)] show ?thesis by auto
next
  case ViewerPrev
  with assms oneInFlight_ctl[OF ctl_viewer(4)] show ?thesis by auto
next
  case ViewerNext
  with assms oneInFlight_ctl[OF ctl_viewer(5)] show ?thesis by auto
next
  case ViewerRetry
  with assms oneInFlight_ctl[OF ctl_viewer(1)] show ?thesis by auto
next
  case (TouchStart x y)
  with assms oneInFlight_ctl[OF ctl_viewer(6)] show ?thesis by auto
next
  case (TouchEnd x y)
  with assms oneInFlight_ctl[OF ctl_touchend] show ?thesis by auto
next
  case (ImageSettled k ok)
  with assms oneInFlight_ctl[OF ctl_viewer(7)] show ?thesis by auto
qed

lemma oneInFlight_init: "oneInFlight (init pid cat ttl month d)"
  unfolding init_def
  by (rule oneInFlight_loadPage) (simp add: oneInFlight_def initial_state_def)

lemma reachable_oneInFlight: "reachable w \<Longrightarrow> oneInFlight w"
  by (induction rule: reachable.induct) (auto intro: oneInFlight_init oneInFlight_step)

section \<open>Missing category code\<close>

text \<open>
  C9. In every world the script can be in, when the category code is empty a call of
  \<open>loadPage\<close> shows the missing-category toast exactly once and does nothing else: the
  state is unchanged, no request is in flight before or after (none is sent, none is
  retried), no controller is created, and the page differs by that one toast only.
\<close>

theorem loadPage_missing_category:
  assumes "reachable w" "categoryCode (st w) = []"
  shows "st (loadPage r w) = st w \<and>
         fetches (loadPage r w) = [] \<and> fetches w = [] \<and>
         controllers (loadPage r w) = controllers w \<and> loads (loadPage r w) = loads w \<and>
         page (loadPage r w) = (page w)\<lparr>toasts := toasts (page w) @ [MissingCategory]\<rparr>"
proof -
  from reachable_oneInFlight[OF assms(1)] assms(2)
  have "\<not> isLoading (st w)" "fetches w = []" by (auto simp: oneInFlight_def)
  with assms(2) show ?thesis by (simp add: loadPage_def showToast_def)
qed

theorem loadPage_missing_category_witness:
  "reachable (init ''42'' [] ''x'' ''2024-03'' page375) \<and>
   categoryCode (st (init ''42'' [] ''x'' ''2024-03'' page375)) = [] \<and>
   fetches (loadPage False (init ''42'' [] ''x'' ''2024-03'' page375)) = [] \<and>
   st (loadPage False (init ''42'' [] ''x'' ''2024-03'' page375)) =
     st (init ''42'' [] ''x'' ''2024-03'' page375) \<and>
   toasts (page (loadPage False (init ''42'' [] ''x'' ''2024-03'' page375))) =
     [MissingCategory, MissingCategory]"
proof -
  have r: "reachable (init ''42'' [] ''x'' ''2024-03'' page375)" by (rule reachable.start)
  have c: "categoryCode (st (init ''42'' [] ''x'' ''2024-03'' page375)) = []"
    by (simp add: init_def loadPage_def initial_state_def showToast_def)
  have t: "toasts (page (init ''42'' [] ''x'' ''2024-03'' page375)) = [MissingCategory]"
    by (simp add: init_def loadPage_def initial_state_def showToast_def page375_def)
  show ?thesis using r c loadPage_missing_category [OF r c, of False] by (simp add: t)
qed

section \<open>Rollback\<close>

lemma js_set_same: "js_get xs (int i) = Some v \<Longrightarrow> js_set xs i (Some v) = xs"
  by (auto simp: js_get_def js_nth_def js_set_def list_update_same_conv split: if_splits)

lemma layoutLoop_heights:
  "i \<le> j \<Longrightarrow> j < length (groups s) \<Longrightarrow>
     js_get (heights (layoutLoop cw i s)) (int j) = Some (computeItemHeight cw (groups s ! j))"
proof (induction "length (groups s) - i" arbitrary: i s)
  case 0
  then show ?case by simp
next
  case (Suc d)
  define s2 where "s2 = s\<lparr>heights := js_set (heights s) i (Some (computeItemHeight cw (groups s ! i))),
             offsets := js_set (offsets s) i
               (if i = 0 then Some 0
                else jadd (js_get (offsets s) (int i - 1))
                       (js_get (js_set (heights s) i (Some (computeItemHeight cw (groups s ! i)))) (int i - 1)))\<rparr>"
  from Suc.prems have il: "i < length (groups s)" by simp
  have g2: "groups s2 = groups s" by (simp add: s2_def)
  have unf: "layoutLoop cw i s = layoutLoop cw (i + 1) s2"
    using il unfolding s2_def by (subst layoutLoop_unfold) simp
  show ?case
  proof (cases "j = i")
    case True
    have "js_get (heights (layoutLoop cw (i + 1) s2)) (int i) = js_get (heights s2) (int i)"
      using layoutLoop_below[of "int i" "i + 1" cw s2] by simp
    also have "\<dots> = Some (computeItemHeight cw (groups s ! i))"
      by (simp add: s2_def js_get_js_set)
    finally show ?thesis using True by (simp add: unf)
  next
    case False
    with Suc.prems have ij: "i + 1 \<le> j" by simp
    have d: "d = length (groups s2) - (i + 1)" using Suc.hyps(2) g2 by simp
    from Suc.hyps(1)[OF d ij] Suc.prems(2) g2 show ?thesis by (simp add: unf)
  qed
qed

lemma relayout_laidOut: "laidOutAt cw (relayout (Some cw) 0 s)"
proof -
  have i0: "layoutInv (nat (max 0 0)) s" by (simp add: layoutInv_def)
  note r = relayout_invariant[OF i0, of "Some cw"]
  have "js_get (heights (relayout (Some cw) 0 s)) (int i) =
          Some (computeItemHeight (Some cw) (groups s ! i))" if "i < length (groups s)" for i
    using layoutLoop_heights[of 0 i s "Some cw"] that by (simp add: relayout_def Let_def)
  with r show ?thesis by (simp add: laidOutAt_def)
qed

lemma layoutLoop_fixed:
  assumes "laidOutAt cw s"
  shows "layoutLoop (Some cw) i s = s"
proof (induction "length (groups s) - i" arbitrary: i)
  case 0
  then show ?case by (subst layoutLoop_unfold) simp
next
  case (Suc d)
  then have il: "i < length (groups s)" by simp
  from assms have inv: "layoutInv (length (groups s)) s" by (simp add: laidOutAt_def)
  from assms il have h: "js_get (heights s) (int i) = Some (computeItemHeight (Some cw) (groups s ! i))"
    by (simp add: laidOutAt_def)
  then have hs: "js_set (heights s) i (Some (computeItemHeight (Some cw) (groups s ! i))) = heights s"
    by (rule js_set_same)
  have o: "js_get (offsets s) (int i) = Some (sumHeights i s)"
    using layoutInv_sum[OF inv il] .
  have f: "(if i = 0 then Some 0
            else jadd (js_get (offsets s) (int i - 1)) (js_get (heights s) (int i - 1))) = Some (sumHeights i s)"
    using layoutInvD[OF inv il] o by simp
  have os: "js_set (offsets s) i (Some (sumHeights i s)) = offsets s"
    using o by (rule js_set_same)
  have "layoutLoop (Some cw) i s =
          layoutLoop (Some cw) (i + 1) (s\<lparr>heights := heights s, offsets := offsets s\<rparr>)"
    by (subst layoutLoop_unfold) (simp only: hs f os il if_True)
  then have "layoutLoop (Some cw) i s = layoutLoop (Some cw) (i + 1) s" by simp
  also have "\<dots> = s" using Suc by (intro Suc.hyps) simp
  finally show ?case .
qed

lemma relayout_fixed:
  assumes "laidOutAt cw s"
  shows "relayout (Some cw) 0 s = s"
proof -
  from assms have inv: "layoutInv (length (groups s)) s"
    and tot: "totalHeight s = Some (sumHeights (length (groups s)) s)" by (simp_all add: laidOutAt_def)
  show ?thesis
  proof (cases "groups s = []")
    case True
    with tot show ?thesis
      by (simp add: relayout_def Let_def layoutLoop_fixed[OF assms] sumHeights_def)
  next
    case False
    then have "0 < length (groups s)" by simp
    from layoutInv_total[OF inv this] tot False show ?thesis
      by (simp add: relayout_def Let_def layoutLoop_fixed[OF assms])
  qed
qed

lemma loadPage_request:
  assumes "\<not> isLoading (st w)" "categoryCode (st w) \<noteq> []"
  shows "fetches (loadPage r w) \<noteq> []"
    and "reset (last (fetches (loadPage r w))) = r"
    and "\<not> aborted (last (fetches (loadPage r w)))"
    and "preserveGroups (last (fetches (loadPage r w))) = groups (st w)"
    and "preserveHeights (last (fetches (loadPage r w))) = heights (st w)"
    and "preserveOffsets (last (fetches (loadPage r w))) = offsets (st w)"
    and "preserveTotalHeight (last (fetches (loadPage r w))) = totalHeight (st w)"
    and "preserveTotal (last (fetches (loadPage r w))) = total_count (st w)"
  using assms
  by (simp_all add: loadPage_def Let_def cancelInFlight_def setLoading_def setEmptyVisible_def
      setNoMoreVisible_def split: option.splits)

lemma onRejected_result:
  assumes "length (preserveGroups f) \<le> 1073741824"
  shows "\<exists>w'. onRejected f m w = Some w' \<and>
           st w' = relayout (Some (clientWidth (page w))) 0
                     ((st w)\<lparr>groups := preserveGroups f, heights := preserveHeights f,
                              offsets := preserveOffsets f,
                              totalHeight := preserveTotalHeight f,
                              total_count := preserveTotal f\<rparr>) \<and>
           toasts (page w') = toasts (page w) @ [m]"
proof -
  let ?w1 = "recomputeLayout 0
          (w\<lparr>st := (st w)\<lparr>groups := preserveGroups f, heights := preserveHeights f,
                            offsets := preserveOffsets f,
                            totalHeight := preserveTotalHeight f,
                            total_count := preserveTotal f\<rparr>\<rparr>)"
  have g: "groups (st ?w1) = preserveGroups f"
    by (simp add: recomputeLayout_def Let_def relayout_fields)
  with assms have "length (groups (st ?w1)) \<le> 1073741824" by simp
  from renderVirtual_returns[OF this] obtain r where
    r: "renderVirtual ?w1 = Some (?w1\<lparr>page := (page ?w1)\<lparr>rendered := r\<rparr>\<rparr>)" by blast
  show ?thesis
    by (simp add: onRejected_def r showToast_def) (simp add: recomputeLayout_def Let_def)
qed

lemma laidOutAt_cong:
  "groups s' = groups s \<Longrightarrow> heights s' = heights s \<Longrightarrow> offsets s' = offsets s \<Longrightarrow>
   totalHeight s' = totalHeight s \<Longrightarrow> laidOutAt cw s' = laidOutAt cw s"
  by (simp add: laidOutAt_def layoutInv_def sumHeights_def)

text \<open>
  C3, as the code has it. A load-more request is issued from a world \<open>w\<close> that is not
  loading and has a category code. It is still pending, at position \<open>k\<close>, in a later world
  \<open>w2\<close> when it fails with an error that is not an abort. Then the chain returns, and
  afterwards \<open>groups\<close> and \<open>total\<close> have the values they had in \<open>w\<close>, the failure text has
  been shown, and \<open>heights\<close>, \<open>offsets\<close> and \<open>totalHeight\<close> are the layout of those groups at
  the width the scroll container has in \<open>w2\<close>: the handler recomputes them. So they have
  their values of \<open>w\<close> whenever the table of \<open>w\<close> was the layout at that width.
\<close>

theorem failed_loadMore_restores:
  assumes idle: "\<not> isLoading (st w)" and cat: "categoryCode (st w) \<noteq> []"
    and pend: "k < length (fetches w2)" "fetches w2 ! k = last (fetches (loadPage False w))"
    and fail: "isFailure out"
    and size: "length (groups (st w)) \<le> 1073741824"
  shows "\<exists>w3. fetchSettled k out w2 = Some w3 \<and>
           groups (st w3) = groups (st w) \<and> total_count (st w3) = total_count (st w) \<and>
           laidOutAt (clientWidth (page w2)) (st w3) \<and>
           (laidOutAt (clientWidth (page w2)) (st w) \<longrightarrow>
              heights (st w3) = heights (st w) \<and> offsets (st w3) = offsets (st w) \<and>
              totalHeight (st w3) = totalHeight (st w)) \<and>
           toasts (page w3) = toasts (page w2) @ [failureText out]"
proof -
  let ?f = "fetches w2 ! k"
  let ?cw = "clientWidth (page w2)"
  let ?w1 = "w2\<lparr>fetches := take k (fetches w2) @ drop (Suc k) (fetches w2)\<rparr>"
  let ?X = "(st w2)\<lparr>groups := groups (st w), heights := heights (st w),
                     offsets := offsets (st w), totalHeight := totalHeight (st w),
                     total_count := total_count (st w)\<rparr>"
  note rq = loadPage_request[OF idle cat, of False]
  have na: "\<not> aborted ?f" using pend(2) rq(3) by simp
  have pg: "preserveGroups ?f = groups (st w)" "preserveHeights ?f = heights (st w)"
    "preserveOffsets ?f = offsets (st w)" "preserveTotalHeight ?f = totalHeight (st w)"
    "preserveTotal ?f = total_count (st w)"
    using pend(2) rq by simp_all
  have "length (preserveGroups ?f) \<le> 1073741824" using size pg(1) by simp
  from onRejected_result[OF this, of "failureText out" ?w1]
  obtain w' where w': "onRejected ?f (failureText out) ?w1 = Some w'"
    "st w' = relayout (Some ?cw) 0 ?X" "toasts (page w') = toasts (page w2) @ [failureText out]"
    by (auto simp: pg)
  have fs: "fetchSettled k out w2 = Some (onFinally w')"
    using fetchSettled_failure[OF pend(1) na fail] w'(1) by simp
  have st3: "st (onFinally w') = (relayout (Some ?cw) 0 ?X)\<lparr>isLoading := False, abortController := None\<rparr>"
    by (simp add: onFinally_def setLoading_def Let_def w'(2))
  have g: "groups (st (onFinally w')) = groups (st w)"
    and t: "total_count (st (onFinally w')) = total_count (st w)"
    by (simp_all add: st3 relayout_fields)
  have lo: "laidOutAt ?cw (st (onFinally w'))"
    using relayout_laidOut[of ?cw ?X]
    by (subst laidOutAt_cong[of _ "relayout (Some ?cw) 0 ?X"]) (simp_all add: st3)
  have same: "heights (st (onFinally w')) = heights (st w) \<and> offsets (st (onFinally w')) = offsets (st w) \<and>
              totalHeight (st (onFinally w')) = totalHeight (st w)"
    if "laidOutAt ?cw (st w)"
  proof -
    have "laidOutAt ?cw ?X" using that by (subst laidOutAt_cong[of _ "st w"]) simp_all
    from relayout_fixed[OF this] show ?thesis by (simp add: st3)
  qed
  have ts: "toasts (page (onFinally w')) = toasts (page w2) @ [failureText out]"
    by (simp add: onFinally_def setLoading_def Let_def w'(3))
  from fs g t lo same ts show ?thesis by blast
qed

text \<open>The definitions unfolded to run the script on the sample worlds.\<close>

lemmas eval_defs = init_def loadPage_def initial_state_def showToast_def
  cancelInFlight_def setLoading_def setEmptyVisible_def setNoMoreVisible_def buildApiUrl_def
  fetchSettled_def onFulfilled_def onRejected_def onFinally_def recomputeLayout_def relayout_def
  layoutLoop_unfold renderVirtual_def findIndexByScrollTop_def searchLoop.simps sar1_def toInt32_def
  js_get_def js_nth_def js_set_def jadd_def or0_def handleScroll_def monthChange_def isAllLoaded_def
  computeItemHeight_def gridHeight_def rowsOf_def imagesOf_def thumb_def gridWidth_def containerWidth_def
  gap_def textOf_def errorText_def Let_def

theorem failed_loadMore_restores_witness:
  "\<not> isLoading (st idle) \<and> categoryCode (st idle) \<noteq> [] \<and>
   0 < length (fetches (loadPage False idle)) \<and>
   fetches (loadPage False idle) ! 0 = last (fetches (loadPage False idle)) \<and>
   isFailure (Rejected ''Failed to fetch'') \<and>
   length (groups (st idle)) \<le> 1073741824 \<and>
   laidOutAt (clientWidth (page (loadPage False idle))) (st idle) \<and>
   (\<exists>w3. fetchSettled 0 (Rejected ''Failed to fetch'') (loadPage False idle) = Some w3 \<and>
      groups (st w3) = groups (st idle) \<and> total_count (st w3) = total_count (st idle) \<and>
      heights (st w3) = heights (st idle) \<and> offsets (st w3) = offsets (st idle) \<and>
      totalHeight (st w3) = totalHeight (st idle) \<and>
      toasts (page w3) = toasts (page (loadPage False idle)) @ [failureText (Rejected ''Failed to fetch'')])"
proof -
  have h1: "\<not> isLoading (st idle)" and h2: "categoryCode (st idle) \<noteq> []"
    by (simp_all add: idle_def laidOut_def appended_def initial_state_def)
  have h3: "0 < length (fetches (loadPage False idle))"
    and h4: "fetches (loadPage False idle) ! 0 = last (fetches (loadPage False idle))"
    by (simp_all add: idle_def laidOut_def appended_def initial_state_def loadPage_def Let_def
        cancelInFlight_def setLoading_def setEmptyVisible_def setNoMoreVisible_def)
  have h5: "isFailure (Rejected ''Failed to fetch'')" by (simp add: isFailure_def)
  have h6: "length (groups (st idle)) \<le> 1073741824"
    by (simp add: idle_def laidOut_def appended_def initial_state_def)
  have cw: "clientWidth (page (loadPage False idle)) = 375"
    by (simp add: idle_def laidOut_def appended_def initial_state_def loadPage_def Let_def
        cancelInFlight_def setLoading_def setEmptyVisible_def setNoMoreVisible_def page375_def)
  have h7: "laidOutAt (clientWidth (page (loadPage False idle))) (st idle)"
    unfolding cw
    by (simp add: laidOutAt_def layoutInv_def sumHeights_def idle_def laidOut_def appended_def
        initial_state_def js_get_def js_nth_def jadd_def or0_def computeItemHeight_def
        gridHeight_def rowsOf_def imagesOf_def thumb_def gridWidth_def containerWidth_def gap_def
        group7_def less_Suc_eq)
  from failed_loadMore_restores [OF h1 h2 h3 h4 h5 h6] h7
  have "\<exists>w3. fetchSettled 0 (Rejected ''Failed to fetch'') (loadPage False idle) = Some w3 \<and>
      groups (st w3) = groups (st idle) \<and> total_count (st w3) = total_count (st idle) \<and>
      heights (st w3) = heights (st idle) \<and> offsets (st w3) = offsets (st idle) \<and>
      totalHeight (st w3) = totalHeight (st idle) \<and>
      toasts (page w3) = toasts (page (loadPage False idle)) @ [failureText (Rejected ''Failed to fetch'')]"
    by blast
  with h1 h2 h3 h4 h5 h6 h7 show ?thesis by blast
qed

text \<open>
  C3 as stated has the table come back as it was for every state. After the first page
  has been laid out at width 375, the container becomes 800 wide and the next page is
  requested: at that moment \<open>heights\<close> is \<open>[411]\<close> and \<open>totalHeight\<close> is \<open>411\<close>. When the request
  fails they are \<open>[834]\<close> and \<open>834\<close>.
\<close>

theorem failed_loadMore_after_resize:
  "map_option (map reset \<circ> fetches) (run untilLoadMore started) = Some [False] \<and>
   map_option (heights \<circ> st) (run untilLoadMore started) = Some [Some 411] \<and>
   map_option (totalHeight \<circ> st) (run untilLoadMore started) = Some (Some 411) \<and>
   map_option (heights \<circ> st)
     (run (untilLoadMore @ [FetchSettled 0 (Rejected ''Failed to fetch'')]) started) =
     Some [Some 834] \<and>
   map_option (totalHeight \<circ> st)
     (run (untilLoadMore @ [FetchSettled 0 (Rejected ''Failed to fetch'')]) started) =
     Some (Some 834)"
  by (simp add: eval_defs untilLoadMore_def started_def page375_def marchPage_def group7_def)

section \<open>Month change while a request is pending\<close>

text \<open>
  C5 on the code. When the month is changed while the request for page 2 of March is
  pending, \<open>loadPage({reset: true})\<close> returns at its \<open>isLoading\<close> guard: the pending request
  is not aborted and no request for April is sent. The list has been emptied and the
  month is April. When the March response arrives it is applied: the list now holds the
  second page of March under the month April, and nothing is in flight.
\<close>

theorem month_change_while_loading:
  "map_option (map (report_month \<circ> url) \<circ> fetches) (run untilMonthChange started) =
     Some [''2024-03''] \<and>
   map_option (map (page_num \<circ> url) \<circ> fetches) (run untilMonthChange started) = Some [2] \<and>
   map_option (map aborted \<circ> fetches) (run untilMonthChange started) = Some [False] \<and>
   map_option (groups \<circ> st) (run untilMonthChange started) = Some [] \<and>
   map_option (reportMonth \<circ> st) (run untilMonthChange started) = Some ''2024-04'' \<and>
   map_option (groups \<circ> st)
     (run (untilMonthChange @ [FetchSettled 0 (Reply True (Some marchPage2))]) started) =
     Some [\<lparr>report_date = ''2024-03-02'', image_urls = Some [''h'']\<rparr>] \<and>
   map_option (reportMonth \<circ> st)
     (run (untilMonthChange @ [FetchSettled 0 (Reply True (Some marchPage2))]) started) =
     Some ''2024-04'' \<and>
   map_option fetches
     (run (untilMonthChange @ [FetchSettled 0 (Reply True (Some marchPage2))]) started) =
     Some []"
  by (simp add: eval_defs untilMonthChange_def started_def page375_def marchPage_def marchPage2_def
      group7_def)

section \<open>Pagination\<close>

lemma onFulfilled_result:
  assumes "length (if reset f then (case p_list p of Some l \<Rightarrow> l | None \<Rightarrow> [])
                   else groups (st w) @ (case p_list p of Some l \<Rightarrow> l | None \<Rightarrow> [])) \<le> 1073741824"
  shows "\<exists>w'. onFulfilled f p w = Some w' \<and>
           groups (st w') = (if reset f then (case p_list p of Some l \<Rightarrow> l | None \<Rightarrow> [])
                             else groups (st w) @ (case p_list p of Some l \<Rightarrow> l | None \<Rightarrow> [])) \<and>
           total_count (st w') = p_total p \<and>
           pageNum (st w') = (if isAllLoaded (st w') then pageNum (st w) else pageNum (st w) + 1) \<and>
           (isAllLoaded (st w') \<longrightarrow> \<not> noMoreHidden (page w')) \<and>
           categoryCode (st w') = categoryCode (st w) \<and>
           pageSize (st w') = pageSize (st w)"
proof -
  let ?lst = "case p_list p of Some l \<Rightarrow> l | None \<Rightarrow> []"
  let ?w1 = "w\<lparr>st := (st w)\<lparr>total_count := p_total p\<rparr>\<rparr>"
  let ?a1 = "recomputeLayout 0
                   (?w1\<lparr>st := (st ?w1)\<lparr>groups := ?lst, heights := [], offsets := [],
                                       totalHeight := Some 0\<rparr>,
                       page := (page ?w1)\<lparr>scrollTop := 0\<rparr>\<rparr>)"
  let ?a2 = "recomputeLayout (int (length (groups (st ?w1))))
                   (?w1\<lparr>st := (st ?w1)\<lparr>groups := groups (st ?w1) @ ?lst\<rparr>\<rparr>)"
  let ?arg = "if reset f then ?a1 else ?a2"
  have g1: "groups (st ?a1) = ?lst" and g2: "groups (st ?a2) = groups (st w) @ ?lst"
    by (simp_all add: recomputeLayout_def Let_def relayout_fields)
  have o1: "total_count (st ?a1) = p_total p \<and> pageNum (st ?a1) = pageNum (st w) \<and>
            categoryCode (st ?a1) = categoryCode (st w) \<and> pageSize (st ?a1) = pageSize (st w)"
    by (simp add: recomputeLayout_def Let_def relayout_fields)
  have o2: "total_count (st ?a2) = p_total p \<and> pageNum (st ?a2) = pageNum (st w) \<and>
            categoryCode (st ?a2) = categoryCode (st w) \<and> pageSize (st ?a2) = pageSize (st w)"
    by (simp add: recomputeLayout_def Let_def relayout_fields)
  have g: "groups (st ?arg) = (if reset f then ?lst else groups (st w) @ ?lst)"
    using g1 g2 by (cases "reset f") simp_all
  have o: "total_count (st ?arg) = p_total p" "pageNum (st ?arg) = pageNum (st w)"
    "categoryCode (st ?arg) = categoryCode (st w)" "pageSize (st ?arg) = pageSize (st w)"
    using o1 o2 by (cases "reset f"; simp)+
  from assms g have "length (groups (st ?arg)) \<le> 1073741824" by simp
  from renderVirtual_returns[OF this] obtain r where
    r: "renderVirtual ?arg = Some (?arg\<lparr>page := (page ?arg)\<lparr>rendered := r\<rparr>\<rparr>)" by blast
  define w2 where "w2 = ?arg\<lparr>page := (page ?arg)\<lparr>rendered := r\<rparr>\<rparr>"
  define w3 where "w3 = (if total_count (st w2) = 0 then setEmptyVisible True w2 else w2)"
  define w4 where "w4 = (if isAllLoaded (st w3) then setNoMoreVisible True w3
             else w3\<lparr>st := (st w3)\<lparr>pageNum := pageNum (st w3) + 1\<rparr>\<rparr>)"
  have rv: "(if reset f then renderVirtual ?a1 else renderVirtual ?a2) = Some w2"
    using r unfolding w2_def by (cases "reset f") simp_all
  have f: "onFulfilled f p w = Some w4"
    unfolding onFulfilled_def Let_def rv w4_def w3_def by simp
  have st2: "st w2 = st ?arg" by (simp add: w2_def)
  have st3: "st w3 = st ?arg" by (simp add: w3_def setEmptyVisible_def st2)
  have al: "isAllLoaded (st w4) = isAllLoaded (st w3)"
    by (simp add: w4_def isAllLoaded_def setNoMoreVisible_def)
  have w4f: "groups (st w4) = groups (st w3)" "total_count (st w4) = total_count (st w3)"
    "categoryCode (st w4) = categoryCode (st w3)" "pageSize (st w4) = pageSize (st w3)"
    "pageNum (st w4) = (if isAllLoaded (st w3) then pageNum (st w3) else pageNum (st w3) + 1)"
    "isAllLoaded (st w3) \<longrightarrow> \<not> noMoreHidden (page w4)"
    by (simp_all add: w4_def setNoMoreVisible_def)
  have "groups (st w4) = (if reset f then ?lst else groups (st w) @ ?lst)"
    by (simp only: w4f st3 g)
  moreover have "total_count (st w4) = p_total p"
    by (simp only: w4f st3 o)
  moreover have "pageNum (st w4) = (if isAllLoaded (st w4) then pageNum (st w) else pageNum (st w) + 1)"
    by (simp only: al w4f st3 o)
  moreover have "isAllLoaded (st w4) \<longrightarrow> \<not> noMoreHidden (page w4)"
    using w4f(6) by (simp only: al)
  moreover have "categoryCode (st w4) = categoryCode (st w)"
    by (simp only: w4f st3 o)
  moreover have "pageSize (st w4) = pageSize (st w)"
    by (simp only: w4f st3 o)
  ultimately show ?thesis using f by blast
qed

lemma loadPage_idle:
  assumes "\<not> isLoading (st w)" "categoryCode (st w) \<noteq> []" "fetches w = []"
  shows "fetches (loadPage r w) = [last (fetches (loadPage r w))]"
    and "groups (st (loadPage r w)) = groups (st w)"
    and "pageNum (st (loadPage r w)) = (if r then 1 else pageNum (st w))"
    and "pageSize (st (loadPage r w)) = pageSize (st w)"
    and "categoryCode (st (loadPage r w)) = categoryCode (st w)"
    and "page_num (url (last (fetches (loadPage r w)))) = (if r then 1 else pageNum (st w))"
    and "page_size (url (last (fetches (loadPage r w)))) = pageSize (st w)"
    and "category_code (url (last (fetches (loadPage r w)))) = categoryCode (st w)"
  using assms
  by (simp_all add: loadPage_def Let_def cancelInFlight_def setLoading_def setEmptyVisible_def
      setNoMoreVisible_def buildApiUrl_def split: option.splits)

lemma st_onFinally:
  "st (onFinally w) = (st w)\<lparr>isLoading := False, abortController := None\<rparr>"
  "page (onFinally w) = (page w)\<lparr>spinnerHidden := True\<rparr>"
  "fetches (onFinally w) = fetches w"
  by (simp_all add: onFinally_def setLoading_def Let_def)

text \<open>One page requested from an idle world and delivered.\<close>

lemma page_arrives:
  assumes inv: "oneInFlight w" and idle: "\<not> isLoading (st w)" and cat: "categoryCode (st w) \<noteq> []"
    and size: "length (if r then l else groups (st w) @ l) \<le> 1073741824"
  shows "\<exists>w'. fetchSettled 0 (fullReply n l) (loadPage r w) = Some w' \<and>
           oneInFlight w' \<and> \<not> isLoading (st w') \<and> categoryCode (st w') = categoryCode (st w) \<and>
           groups (st w') = (if r then l else groups (st w) @ l) \<and>
           total_count (st w') = n \<and>
           pageNum (st w') = (if isAllLoaded (st w') then (if r then 1 else pageNum (st w))
                              else (if r then 1 else pageNum (st w)) + 1) \<and>
           pageSize (st w') = pageSize (st w) \<and>
           (isAllLoaded (st w') \<longrightarrow> \<not> noMoreHidden (page w')) \<and>
           fetches w' = []"
proof -
  let ?p = "\<lparr>p_success = True, p_total = n, p_list = Some l, p_message = None\<rparr>"
  let ?w0 = "loadPage r w"
  let ?f = "fetches ?w0 ! 0"
  let ?w1 = "?w0\<lparr>fetches := take 0 (fetches ?w0) @ drop (Suc 0) (fetches ?w0)\<rparr>"
  from inv idle have e: "fetches w = []" by (auto simp: oneInFlight_def)
  note lp = loadPage_idle[OF idle cat e, of r]
  note rq = loadPage_request[OF idle cat, of r]
  define x where "x = last (fetches ?w0)"
  have fx: "fetches ?w0 = [x]" using lp(1) by (simp only: x_def)
  have k: "0 < length (fetches ?w0)" by (simp add: fx)
  have fl: "?f = x" by (simp add: fx)
  have fl': "?f = last (fetches ?w0)" using fl by (simp only: x_def)
  have na: "\<not> aborted ?f" using rq(3) unfolding fl' .
  have rs: "reset ?f = r" using rq(2) unfolding fl' .
  have fs: "fetchSettled 0 (fullReply n l) ?w0 = map_option onFinally (onFulfilled ?f ?p ?w1)"
    unfolding fullReply_def by (rule fetchSettled_success[OF k na]) simp
  have e1: "fetches ?w1 = []" by (simp add: fx)
  have g1: "groups (st ?w1) = groups (st w)" "pageNum (st ?w1) = (if r then 1 else pageNum (st w))"
    "categoryCode (st ?w1) = categoryCode (st w)" "pageSize (st ?w1) = pageSize (st w)"
    using lp(2,3,4,5) by simp_all
  have "length (if reset ?f then (case p_list ?p of Some l \<Rightarrow> l | None \<Rightarrow> [])
                   else groups (st ?w1) @ (case p_list ?p of Some l \<Rightarrow> l | None \<Rightarrow> [])) \<le> 1073741824"
    using size by (simp only: rs g1) (simp split: if_splits)
  from onFulfilled_result[OF this]
  obtain w2 where w2: "onFulfilled ?f ?p ?w1 = Some w2"
    and w2g: "groups (st w2) = (if reset ?f then (case p_list ?p of Some l \<Rightarrow> l | None \<Rightarrow> [])
                             else groups (st ?w1) @ (case p_list ?p of Some l \<Rightarrow> l | None \<Rightarrow> []))"
    and w2t: "total_count (st w2) = p_total ?p"
    and w2p: "pageNum (st w2) = (if isAllLoaded (st w2) then pageNum (st ?w1) else pageNum (st ?w1) + 1)"
    and w2n: "isAllLoaded (st w2) \<longrightarrow> \<not> noMoreHidden (page w2)"
    and w2c: "categoryCode (st w2) = categoryCode (st ?w1)"
    and w2s: "pageSize (st w2) = pageSize (st ?w1)"
    by blast
  have w2g': "groups (st w2) = (if r then l else groups (st w) @ l)"
    using w2g by (simp only: rs g1) (simp split: if_splits)
  have w2t': "total_count (st w2) = n" using w2t by simp
  have w2p': "pageNum (st w2) = (if isAllLoaded (st w2) then (if r then 1 else pageNum (st w))
                              else (if r then 1 else pageNum (st w)) + 1)"
    using w2p by (simp only: g1)
  have w2c': "categoryCode (st w2) = categoryCode (st w)" using w2c by (simp only: g1)
  have w2s': "pageSize (st w2) = pageSize (st w)" using w2s by (simp only: g1)
  have res: "fetchSettled 0 (fullReply n l) ?w0 = Some (onFinally w2)" by (simp only: fs w2 option.map)
  have o: "oneInFlight (onFinally w2)"
    using oneInFlight_fetchSettled[OF oneInFlight_loadPage[OF inv] res] .
  have al: "isAllLoaded (st (onFinally w2)) = isAllLoaded (st w2)"
    by (simp add: st_onFinally isAllLoaded_def)
  have f0: "fetches (onFinally w2) = []"
    using fetches_ctl[OF ctl_onFulfilled[OF w2]] e1 by (simp add: st_onFinally)
  have "\<not> isLoading (st (onFinally w2))" by (simp add: st_onFinally)
  moreover have "categoryCode (st (onFinally w2)) = categoryCode (st w)"
    using w2c' by (simp add: st_onFinally)
  moreover have "groups (st (onFinally w2)) = (if r then l else groups (st w) @ l)"
    using w2g' by (simp add: st_onFinally)
  moreover have "total_count (st (onFinally w2)) = n" using w2t' by (simp add: st_onFinally)
  moreover have "pageNum (st (onFinally w2)) =
      (if isAllLoaded (st (onFinally w2)) then (if r then 1 else pageNum (st w))
       else (if r then 1 else pageNum (st w)) + 1)"
    unfolding al using w2p' by (simp add: st_onFinally)
  moreover have "pageSize (st (onFinally w2)) = pageSize (st w)"
    using w2s' by (simp add: st_onFinally)
  moreover have "isAllLoaded (st (onFinally w2)) \<longrightarrow> \<not> noMoreHidden (page (onFinally w2))"
    unfolding al using w2n by (simp add: st_onFinally)
  ultimately show ?thesis using res o f0 by blast
qed

lemma handleScroll_allLoaded:
  assumes "isAllLoaded (st w)" "length (groups (st w)) \<le> 1073741824"
  shows "\<exists>w'. handleScroll w = Some w' \<and> st w' = st w \<and> fetches w' = fetches w \<and>
           toasts (page w') = toasts (page w)"
proof -
  from renderVirtual_returns[OF assms(2)] obtain r where
    r: "renderVirtual w = Some (w\<lparr>page := (page w)\<lparr>rendered := r\<rparr>\<rparr>)" by blast
  show ?thesis using assms(1) by (simp add: handleScroll_def r)
qed

text \<open>
  C4, as the code has it. \<open>isAllLoaded\<close> holds exactly when \<open>total\<close> is positive and
  \<open>groups.length\<close> has reached it. In the scenario of the specification (category
  \<open>blood_pressure\<close>, page size 10, the server reporting a total of 25, pages of 10, 10 and
  5 groups) the three requests ask for pages 1, 2 and 3 and each response is applied;
  after the first and the second not all is loaded; after the third the list has the 25
  groups, \<open>isAllLoaded\<close> holds, the end-of-list line is shown and nothing is in flight; and
  a scroll signal at any position then returns without a request and without changing
  the state.
\<close>

theorem allLoaded_after_three_pages:
  "(isAllLoaded s \<longleftrightarrow> 0 < total_count s \<and> total_count s \<le> int (length (groups s))) \<and>
   (length l1 = 10 \<and> length l2 = 10 \<and> length l3 = 5 \<longrightarrow>
      (\<exists>w1 w2 w3.
         fetchSettled 0 (fullReply 25 l1) (init pid ''blood_pressure'' ttl month d) = Some w1 \<and>
         fetchSettled 0 (fullReply 25 l2) (loadPage False w1) = Some w2 \<and>
         fetchSettled 0 (fullReply 25 l3) (loadPage False w2) = Some w3 \<and>
         map (page_num \<circ> url) (fetches (init pid ''blood_pressure'' ttl month d)) = [1] \<and>
         map (page_num \<circ> url) (fetches (loadPage False w1)) = [2] \<and>
         map (page_num \<circ> url) (fetches (loadPage False w2)) = [3] \<and>
         map (page_size \<circ> url) (fetches (loadPage False w2)) = [10] \<and>
         \<not> isAllLoaded (st w1) \<and> \<not> isAllLoaded (st w2) \<and>
         groups (st w3) = l1 @ l2 @ l3 \<and> length (groups (st w3)) = 25 \<and>
         total_count (st w3) = 25 \<and>
         isAllLoaded (st w3) \<and> \<not> noMoreHidden (page w3) \<and> fetches w3 = [] \<and>
         (\<forall>y. \<exists>w4. step (Scroll y) w3 = Some w4 \<and> st w4 = st w3 \<and> fetches w4 = [])))"
proof -
  have gen: "isAllLoaded s \<longleftrightarrow> 0 < total_count s \<and> total_count s \<le> int (length (groups s))"
    by (simp add: isAllLoaded_def)
  have scen: "\<exists>w1 w2 w3.
         fetchSettled 0 (fullReply 25 l1) (init pid ''blood_pressure'' ttl month d) = Some w1 \<and>
         fetchSettled 0 (fullReply 25 l2) (loadPage False w1) = Some w2 \<and>
         fetchSettled 0 (fullReply 25 l3) (loadPage False w2) = Some w3 \<and>
         map (page_num \<circ> url) (fetches (init pid ''blood_pressure'' ttl month d)) = [1] \<and>
         map (page_num \<circ> url) (fetches (loadPage False w1)) = [2] \<and>
         map (page_num \<circ> url) (fetches (loadPage False w2)) = [3] \<and>
         map (page_size \<circ> url) (fetches (loadPage False w2)) = [10] \<and>
         \<not> isAllLoaded (st w1) \<and> \<not> isAllLoaded (st w2) \<and>
         groups (st w3) = l1 @ l2 @ l3 \<and> length (groups (st w3)) = 25 \<and>
         total_count (st w3) = 25 \<and>
         isAllLoaded (st w3) \<and> \<not> noMoreHidden (page w3) \<and> fetches w3 = [] \<and>
         (\<forall>y. \<exists>w4. step (Scroll y) w3 = Some w4 \<and> st w4 = st w3 \<and> fetches w4 = [])"
    if len: "length l1 = 10" "length l2 = 10" "length l3 = 5"
  proof -
    define w0 where "w0 = \<lparr>st = initial_state\<lparr>patientId := pid, categoryCode := ''blood_pressure'',
                            title := ttl, reportMonth := month\<rparr>,
        page = d, fetches = [], loads = [], controllers = 0\<rparr>"
    have i: "init pid ''blood_pressure'' ttl month d = loadPage True w0"
      by (simp add: init_def w0_def)
    have o0: "oneInFlight w0" and n0: "\<not> isLoading (st w0)" and c0: "categoryCode (st w0) \<noteq> []"
      and f0: "fetches w0 = []" and ps0: "pageSize (st w0) = 10"
      by (simp_all add: w0_def oneInFlight_def initial_state_def)
    have "length (if True then l1 else groups (st w0) @ l1) \<le> 1073741824" using len by simp
    from page_arrives[OF o0 n0 c0 this, of 25]
    obtain w1 where w1: "fetchSettled 0 (fullReply 25 l1) (loadPage True w0) = Some w1"
      "oneInFlight w1" "\<not> isLoading (st w1)" "categoryCode (st w1) = categoryCode (st w0)"
      "groups (st w1) = l1" "total_count (st w1) = 25"
      "pageNum (st w1) = (if isAllLoaded (st w1) then 1 else 1 + 1)"
      "pageSize (st w1) = pageSize (st w0)" "fetches w1 = []"
      by auto
    have a1: "\<not> isAllLoaded (st w1)" using w1(5,6) len by (simp add: isAllLoaded_def)
    with w1(7) have p1: "pageNum (st w1) = 2" by simp
    have c1: "categoryCode (st w1) \<noteq> []" using w1(4) c0 by simp
    have "length (if False then l2 else groups (st w1) @ l2) \<le> 1073741824"
      using len w1(5) by simp
    from page_arrives[OF w1(2,3) c1 this, of 25]
    obtain w2 where w2: "fetchSettled 0 (fullReply 25 l2) (loadPage False w1) = Some w2"
      "oneInFlight w2" "\<not> isLoading (st w2)" "categoryCode (st w2) = categoryCode (st w1)"
      "groups (st w2) = groups (st w1) @ l2" "total_count (st w2) = 25"
      "pageNum (st w2) = (if isAllLoaded (st w2) then pageNum (st w1) else pageNum (st w1) + 1)"
      "pageSize (st w2) = pageSize (st w1)" "fetches w2 = []"
      by auto
    have a2: "\<not> isAllLoaded (st w2)" using w2(5,6) w1(5) len by (simp add: isAllLoaded_def)
    with w2(7) p1 have p2: "pageNum (st w2) = 3" by simp
    have c2: "categoryCode (st w2) \<noteq> []" using w2(4) c1 by simp
    have "length (if False then l3 else groups (st w2) @ l3) \<le> 1073741824"
      using len w1(5) w2(5) by simp
    from page_arrives[OF w2(2,3) c2 this, of 25]
    obtain w3 where w3: "fetchSettled 0 (fullReply 25 l3) (loadPage False w2) = Some w3"
      "groups (st w3) = groups (st w2) @ l3" "total_count (st w3) = 25"
      "isAllLoaded (st w3) \<longrightarrow> \<not> noMoreHidden (page w3)" "fetches w3 = []"
      by auto
    have g3: "groups (st w3) = l1 @ l2 @ l3" using w3(2) w2(5) w1(5) by simp
    have l3: "length (groups (st w3)) = 25" using g3 len by simp
    have a3: "isAllLoaded (st w3)" using l3 w3(3) by (simp add: isAllLoaded_def)
    have r0: "map (page_num \<circ> url) (fetches (loadPage True w0)) = [1]"
      using loadPage_idle(1,6)[OF n0 c0 f0, of True]
      by (metis (no_types, lifting) comp_apply list.simps(8,9))
    have r1: "map (page_num \<circ> url) (fetches (loadPage False w1)) = [2]"
      using loadPage_idle(1,6)[OF w1(3) c1 w1(9), of False] p1
      by (metis (no_types, lifting) comp_apply list.simps(8,9))
    have r2: "map (page_num \<circ> url) (fetches (loadPage False w2)) = [3]"
      using loadPage_idle(1,6)[OF w2(3) c2 w2(9), of False] p2
      by (metis (no_types, lifting) comp_apply list.simps(8,9))
    have s2: "map (page_size \<circ> url) (fetches (loadPage False w2)) = [10]"
      using loadPage_idle(1,7)[OF w2(3) c2 w2(9), of False] w2(8) w1(8) ps0
      by (metis (no_types, lifting) comp_apply list.simps(8,9))
    have sc: "\<exists>w4. step (Scroll y) w3 = Some w4 \<and> st w4 = st w3 \<and> fetches w4 = []" for y
    proof -
      let ?w = "w3\<lparr>page := (page w3)\<lparr>scrollTop := y\<rparr>\<rparr>"
      have "isAllLoaded (st ?w)" using a3 by simp
      moreover have "length (groups (st ?w)) \<le> 1073741824" using l3 by simp
      ultimately obtain w4 where "handleScroll ?w = Some w4" "st w4 = st ?w" "fetches w4 = fetches ?w"
        using handleScroll_allLoaded[of ?w] by blast
      with w3(5) show ?thesis by simp
    qed
    have nm: "\<not> noMoreHidden (page w3)" using w3(4) a3 by simp
    show ?thesis unfolding i
      by (rule exI[of _ w1], rule exI[of _ w2], rule exI[of _ w3])
         (intro conjI allI w1(1) w2(1) w3(1) r0 r1 r2 s2 a1 a2 g3 l3 w3(3) a3 nm w3(5) sc)
  qed
  from gen scen show ?thesis by blast
qed

theorem allLoaded_after_three_pages_witness:
  "length tenGroups = 10 \<and> length tenGroups = 10 \<and> length fiveGroups = 5 \<and>
   (\<exists>w1 w2 w3.
      fetchSettled 0 (fullReply 25 tenGroups) (init ''42'' ''blood_pressure'' ''x'' ''2024-03'' page375) = Some w1 \<and>
      fetchSettled 0 (fullReply 25 tenGroups) (loadPage False w1) = Some w2 \<and>
      fetchSettled 0 (fullReply 25 fiveGroups) (loadPage False w2) = Some w3 \<and>
      length (groups (st w3)) = 25 \<and> isAllLoaded (st w3) \<and> \<not> noMoreHidden (page w3) \<and>
      fetches w3 = [] \<and>
      (\<forall>y. \<exists>w4. step (Scroll y) w3 = Some w4 \<and> st w4 = st w3 \<and> fetches w4 = []))"
proof -
  have len: "length tenGroups = 10 \<and> length tenGroups = 10 \<and> length fiveGroups = 5"
    by (simp add: tenGroups_def fiveGroups_def)
  from allLoaded_after_three_pages
         [where ?l1.0 = tenGroups and ?l2.0 = tenGroups and ?l3.0 = fiveGroups and pid = "''42''"
            and ttl = "''x''" and month = "''2024-03''" and d = page375] len
  obtain w1 w2 w3 where
    "fetchSettled 0 (fullReply 25 tenGroups) (init ''42'' ''blood_pressure'' ''x'' ''2024-03'' page375) = Some w1"
    "fetchSettled 0 (fullReply 25 tenGroups) (loadPage False w1) = Some w2"
    "fetchSettled 0 (fullReply 25 fiveGroups) (loadPage False w2) = Some w3"
    "length (groups (st w3)) = 25" "isAllLoaded (st w3)" "\<not> noMoreHidden (page w3)"
    "fetches w3 = []"
    "\<forall>y. \<exists>w4. step (Scroll y) w3 = Some w4 \<and> st w4 = st w3 \<and> fetches w4 = []"
    by blast
  with len show ?thesis by blast
qed

text \<open>
  C4 as stated counts an empty list with total 0 as all loaded. After a response with
  total 0 and no groups, \<open>groups.length\<close> equals \<open>total\<close> but \<open>isAllLoaded\<close> is false and the
  end-of-list line stays hidden; the page counter has moved on, and the next scroll
  signal requests page 2.
\<close>

theorem empty_total_not_all_loaded:
  "map_option (length \<circ> groups \<circ> st) (run [FetchSettled 0 (fullReply 0 [])] started) = Some 0 \<and>
   map_option (total_count \<circ> st) (run [FetchSettled 0 (fullReply 0 [])] started) = Some 0 \<and>
   map_option (isAllLoaded \<circ> st) (run [FetchSettled 0 (fullReply 0 [])] started) = Some False \<and>
   map_option (noMoreHidden \<circ> page) (run [FetchSettled 0 (fullReply 0 [])] started) = Some True \<and>
   map_option (map (page_num \<circ> url) \<circ> fetches)
     (run [FetchSettled 0 (fullReply 0 []), Scroll 0] started) = Some [2]"
  by (simp add: eval_defs fullReply_def started_def page375_def)

end
